theory Spec2Isabelle
  imports Complex_Main "HOL-Library.Word"
begin

unbundle bit_operations_syntax

section \<open>Data model\<close>

text \<open>
  The program is \<^verbatim>\<open>trainning/train_quantize_export.py\<close>: it quantizes a trained
  784-32-10 perceptron to int8 weights and int32 biases, simulates the integer-only
  forward pass, and writes hex memory files.

  A torch tensor of dtype int8 is a list of \<open>8 word\<close>, one of dtype int32 a list of
  \<open>32 word\<close>; \<open>sint\<close> reads the two's-complement value. A two-dimensional tensor of
  shape (out, in) is the list of its \<open>out\<close> rows, each of length \<open>in\<close>.
  Every call that raises (a shape mismatch, a reduction over an empty tensor, Python's
  OverflowError) is a branch \<open>Inl\<close> of the model.
\<close>

type_synonym int8 = "8 word"
type_synonym int32 = "32 word"

datatype error = ShapeError | EmptyTensor | OverflowError

text \<open>
  The module-level variables that \<^verbatim>\<open>forward_quantized\<close> reads (\<^verbatim>\<open>W1_q\<close>,
  \<^verbatim>\<open>b1_q\<close>, \<^verbatim>\<open>shift1\<close>, \<^verbatim>\<open>W2_q\<close>, \<^verbatim>\<open>b2_q\<close>) are the fields of one record
  that the model passes explicitly.
\<close>

record pipeline =
  W1_q :: "int8 list list"
  b1_q :: "int32 list"
  shift1 :: nat
  W2_q :: "int8 list list"
  b2_q :: "int32 list"

section \<open>The quantized forward simulator\<close>

text \<open>\<^verbatim>\<open>t.to(torch.int32)\<close> on an int8 tensor: sign extension.\<close>

definition int8_to_int32 :: "int8 \<Rightarrow> int32" where
  "int8_to_int32 v = scast v"

text \<open>\<^verbatim>\<open>t.to(torch.int8)\<close> on an int32 tensor: the low eight bits.\<close>

definition int32_to_int8 :: "int32 \<Rightarrow> int8" where
  "int32_to_int8 v = ucast v"

text \<open>
  One entry of \<^verbatim>\<open>torch.matmul(Wq.to(torch.int32), xq.to(torch.int32))\<close>: the dot
  product of a row with the input, accumulated in int32 (addition and multiplication
  wrap around).
\<close>

definition dot_int32 :: "int8 list \<Rightarrow> int8 list \<Rightarrow> int32" where
  "dot_int32 row xq = sum_list (map2 (\<lambda>w x. int8_to_int32 w * int8_to_int32 x) row xq)"

text \<open>
  \<^verbatim>\<open>int8_mm_int32_acc(Wq, xq)\<close>: a matrix of shape (out, in) times a vector of length
  \<open>in\<close>. torch raises when a row's length differs from the vector's.
\<close>

definition int8_mm_int32_acc :: "int8 list list \<Rightarrow> int8 list \<Rightarrow> error + int32 list" where
  "int8_mm_int32_acc Wq xq =
     (if list_all (\<lambda>row. length row = length xq) Wq
      then Inr (map (\<lambda>row. dot_int32 row xq) Wq)
      else Inl ShapeError)"

text \<open>
  \<^verbatim>\<open>a + b\<close> on two one-dimensional int32 tensors. torch broadcasts a tensor of
  length 1 against the other one and raises when the lengths differ otherwise.
\<close>

definition add_int32 :: "int32 list \<Rightarrow> int32 list \<Rightarrow> error + int32 list" where
  "add_int32 a b =
     (if length a = length b then Inr (map2 (+) a b)
      else if length b = 1 then Inr (map (\<lambda>v. v + hd b) a)
      else if length a = 1 then Inr (map (\<lambda>v. hd a + v) b)
      else Inl ShapeError)"

text \<open>
  \<^verbatim>\<open>acc1 >> shift1\<close> on an int32 tensor: the arithmetic right shift, which copies
  the sign bit. (\<^verbatim>\<open>shift1\<close> is \<^verbatim>\<open>max(0, ...)\<close> in the program, hence a \<open>nat\<close>;
  torch's kernel shifts by 31 when the amount is 31 or more, which is what
  \<open>signed_drop_bit\<close> yields there.)
\<close>

definition rshift_int32 :: "int32 \<Rightarrow> nat \<Rightarrow> int32" where
  "rshift_int32 a n = signed_drop_bit n a"

text \<open>\<^verbatim>\<open>torch.clamp(t, lo, hi)\<close> on an int32 tensor: \<open>min (max t lo) hi\<close>, signed.\<close>

definition clamp_int32 :: "int32 \<Rightarrow> int \<Rightarrow> int \<Rightarrow> int32" where
  "clamp_int32 v lo hi = word_of_int (min (max (sint v) lo) hi)"

text \<open>\<^verbatim>\<open>torch.maximum(a, b)\<close> on int8 values: the signed maximum.\<close>

definition maximum_int8 :: "int8 \<Rightarrow> int8 \<Rightarrow> int8" where
  "maximum_int8 a b = (if sint a < sint b then b else a)"

text \<open>
  \<^verbatim>\<open>torch.argmax(t)\<close> on a one-dimensional int32 tensor, as torch documents it: the
  index of the maximal value, the first one when several are maximal; it raises on an
  empty tensor. The scan keeps the best index so far and replaces it on a strictly
  greater value only.
\<close>

fun argmax_scan :: "int32 list \<Rightarrow> nat \<Rightarrow> nat \<Rightarrow> int32 \<Rightarrow> nat" where
  "argmax_scan [] i best bv = best"
| "argmax_scan (v # vs) i best bv =
     (if sint bv < sint v then argmax_scan vs (Suc i) i v
      else argmax_scan vs (Suc i) best bv)"

fun argmax :: "int32 list \<Rightarrow> error + nat" where
  "argmax [] = Inl EmptyTensor"
| "argmax (v # vs) = Inr (argmax_scan vs 1 0 v)"

text \<open>
  \<^verbatim>\<open>forward_quantized(xq_int8)\<close>, lines 200-210:
  \<^verbatim>\<open>
    acc1 = int8_mm_int32_acc(W1_q, xq_int8) + b1_q
    h1_q = torch.clamp((acc1 >> shift1), -128, 127).to(torch.int8)
    h1_q = torch.maximum(h1_q, torch.tensor(0, dtype=torch.int8))
    acc2 = int8_mm_int32_acc(W2_q, h1_q) + b2_q
    pred = int(torch.argmax(acc2).item())
    return pred, acc1, h1_q, acc2
  \<close>
\<close>

definition requantize :: "nat \<Rightarrow> int32 \<Rightarrow> int8" where
  "requantize s a = int32_to_int8 (clamp_int32 (rshift_int32 a s) (- 128) 127)"

definition relu_int8 :: "int8 \<Rightarrow> int8" where
  "relu_int8 h = maximum_int8 h 0"

definition forward_quantized ::
  "pipeline \<Rightarrow> int8 list \<Rightarrow> error + (nat \<times> int32 list \<times> int8 list \<times> int32 list)" where
  "forward_quantized p xq_int8 =
     (case int8_mm_int32_acc (W1_q p) xq_int8 of
        Inl e \<Rightarrow> Inl e
      | Inr m1 \<Rightarrow>
     (case add_int32 m1 (b1_q p) of
        Inl e \<Rightarrow> Inl e
      | Inr acc1 \<Rightarrow>
     (let h1_q = map (requantize (shift1 p)) acc1;
          h1_q = map relu_int8 h1_q
      in case int8_mm_int32_acc (W2_q p) h1_q of
        Inl e \<Rightarrow> Inl e
      | Inr m2 \<Rightarrow>
     (case add_int32 m2 (b2_q p) of
        Inl e \<Rightarrow> Inl e
      | Inr acc2 \<Rightarrow>
     (case argmax acc2 of
        Inl e \<Rightarrow> Inl e
      | Inr pred \<Rightarrow> Inr (pred, acc1, h1_q, acc2))))))"

text \<open>
  A pipeline and an input of matching dimensions: every row of \<open>W1_q\<close> has the input's
  length, every row of \<open>W2_q\<close> has one entry per hidden unit, each bias has one entry
  per row, and there is at least one output.
\<close>

definition matching_dims :: "pipeline \<Rightarrow> int8 list \<Rightarrow> bool" where
  "matching_dims p xq \<longleftrightarrow>
     list_all (\<lambda>row. length row = length xq) (W1_q p) \<and>
     length (b1_q p) = length (W1_q p) \<and>
     list_all (\<lambda>row. length row = length (W1_q p)) (W2_q p) \<and>
     length (b2_q p) = length (W2_q p) \<and>
     W2_q p \<noteq> []"

text \<open>
  The index \<open>r\<close> holds the maximum of \<open>xs\<close> (signed), and no earlier index does:
  the first occurrence of the maximum.
\<close>

definition first_max :: "int32 list \<Rightarrow> nat \<Rightarrow> bool" where
  "first_max xs r \<longleftrightarrow>
     r < length xs \<and>
     (\<forall>j<length xs. sint (xs ! j) \<le> sint (xs ! r)) \<and>
     (\<forall>j<r. sint (xs ! j) < sint (xs ! r))"

section \<open>Scales and quantization\<close>

text \<open>
  A finite float, of a float32 tensor or of Python, is the real number it denotes.
  \<^verbatim>\<open>torch.round\<close>, \<^verbatim>\<open>torch.clamp\<close> and the conversions to integers are exact on
  floats and are modelled as such.
\<close>

text \<open>
  \<^verbatim>\<open>torch.round\<close> and Python's \<^verbatim>\<open>round\<close> both round to the nearest integer and a
  tie to the even neighbour.
\<close>

definition round_half_even :: "real \<Rightarrow> int" where
  "round_half_even x =
     (let f = \<lfloor>x\<rfloor>; d = x - of_int f
      in if d < 1 / 2 then f
         else if 1 / 2 < d then f + 1
         else if even f then f else f + 1)"

definition torch_round :: "real \<Rightarrow> real" where
  "torch_round x = of_int (round_half_even x)"

text \<open>A float converted to an integer dtype is truncated towards zero.\<close>

definition trunc :: "real \<Rightarrow> int" where
  "trunc a = (if 0 \<le> a then \<lfloor>a\<rfloor> else \<lceil>a\<rceil>)"

text \<open>
  \<^verbatim>\<open>calc_scale_sym(t, int8_max=127)\<close>, lines 76-78, on the flattened tensor:
  \<^verbatim>\<open>
    m = t.abs().max().item()
    return (m / int8_max) if m > 0 else 1.0
  \<close>
  \<^verbatim>\<open>max()\<close> of a tensor with no element raises.
\<close>

definition calc_scale_sym :: "real list \<Rightarrow> real \<Rightarrow> error + real" where
  "calc_scale_sym t int8_max =
     (if t = [] then Inl EmptyTensor
      else let m = Max (set (map abs t))
           in Inr (if 0 < m then m / int8_max else 1))"

text \<open>
  \<^verbatim>\<open>clamp_int8(a)\<close>, lines 80-81, on one element of a float tensor:
  \<^verbatim>\<open>torch.clamp(a, -128, 127).to(torch.int8)\<close>.
\<close>

definition clamp_int8 :: "real \<Rightarrow> int8" where
  "clamp_int8 a = word_of_int (trunc (min (max a (- 128)) 127))"

text \<open>
  \<^verbatim>\<open>t.to(torch.int32)\<close> on a float: the truncated value when it fits 32 bits. The
  conversion of a float outside the int32 range is not defined by the language the
  kernel is written in; its result there is the parameter \<open>ovf\<close>.
\<close>

definition float_to_int32 :: "(real \<Rightarrow> int32) \<Rightarrow> real \<Rightarrow> int32" where
  "float_to_int32 ovf a =
     (if - 2147483648 \<le> trunc a \<and> trunc a \<le> 2147483647 then word_of_int (trunc a)
      else ovf a)"

subsection \<open>Rounded float arithmetic\<close>

text \<open>
  Division, multiplication and the logarithm of floats round their exact result to a
  float, and the last bit decides how a quotient near a half is rounded to an integer.
  These operations are therefore not computed by the model: they are its parameters,
  and the properties below hold whatever they return, but for the one assumption on
  \<open>flog2\<close> that is stated where it is used.
  \<^item> \<open>div32 a s\<close> is \<^verbatim>\<open>a / s\<close> for an element \<open>a\<close> of a float32 tensor and a Python
    float \<open>s\<close>, as torch computes it;
  \<^item> \<open>mul64 x y\<close> is \<^verbatim>\<open>x * y\<close> on two Python floats;
  \<^item> \<open>rnd64 q\<close> is the double nearest to the real \<open>q\<close>, for \<open>q\<close> below the overflow
    threshold;
  \<^item> \<open>flog2 x\<close> is \<^verbatim>\<open>math.log2(x)\<close> for a finite \<open>x > 0\<close>;
  \<^item> \<open>ovf32\<close> is the conversion to int32 of a float outside the int32 range.
\<close>

record float_ops =
  div32 :: "real \<Rightarrow> real \<Rightarrow> real"
  mul64 :: "real \<Rightarrow> real \<Rightarrow> real"
  rnd64 :: "real \<Rightarrow> real"
  flog2 :: "real \<Rightarrow> real"
  ovf32 :: "real \<Rightarrow> int32"

text \<open>
  The operations without rounding. They agree with the float operations at arguments
  where the exact result is a float (integers of moderate size, powers of two), which is
  where the examples below apply them.
\<close>

definition exact_ops :: float_ops where
  "exact_ops =
     \<lparr>div32 = (\<lambda>a s. a / s), mul64 = (\<lambda>x y. x * y), rnd64 = (\<lambda>q. q),
      flog2 = (\<lambda>x. log 2 x), ovf32 = (\<lambda>a. - 2147483648)\<rparr>"

text \<open>
  A value of a Python float expression: a finite double, an infinity or a NaN.
\<close>

datatype pyfloat = Fin real | PInf | NInf | NaN

text \<open>
  The scale estimator as the script runs it: \<^verbatim>\<open>m / int8_max\<close> is a division of Python
  floats, rounded to a double (dividing by 127 cannot overflow). With exact division it
  is \<open>calc_scale_sym\<close>.
\<close>

definition calc_scale_sym_fl :: "float_ops \<Rightarrow> real list \<Rightarrow> real \<Rightarrow> error + real" where
  "calc_scale_sym_fl fl t int8_max =
     (if t = [] then Inl EmptyTensor
      else let m = Max (set (map abs t))
           in Inr (if 0 < m then rnd64 fl (m / int8_max) else 1))"

text \<open>A \<^verbatim>\<open>nn.Linear\<close> layer: its weight of shape (out, in) and its bias of length out.\<close>

record linear =
  weight :: "real list list"
  bias :: "real list"

text \<open>
  \<^verbatim>\<open>quantize_linear(linear, in_scale, w_scale)\<close>, lines 115-123:
  \<^verbatim>\<open>
    Wq = clamp_int8((Wf / w_scale).round())
    bias_scale = in_scale * w_scale
    bq = torch.round(bf / bias_scale).to(torch.int32)
    return Wq, bq
  \<close>
\<close>

definition quantize_linear ::
  "float_ops \<Rightarrow> linear \<Rightarrow> real \<Rightarrow> real \<Rightarrow> int8 list list \<times> int32 list" where
  "quantize_linear fl lin in_scale w_scale =
     (let Wf = weight lin;
          bf = bias lin;
          Wq = map (map (\<lambda>w. clamp_int8 (torch_round (div32 fl w w_scale)))) Wf;
          bias_scale = mul64 fl in_scale w_scale;
          bq = map (\<lambda>b. float_to_int32 (ovf32 fl) (torch_round (div32 fl b bias_scale))) bf
      in (Wq, bq))"

text \<open>
  The sample input, line 184:
  \<^verbatim>\<open>x0_q = torch.clamp((x0 / scale_x).round(), -128, 127).to(torch.int8)\<close>,
  on one element.
\<close>

definition quantize_value :: "float_ops \<Rightarrow> real \<Rightarrow> real \<Rightarrow> int8" where
  "quantize_value fl v s = clamp_int8 (torch_round (div32 fl v s))"

subsection \<open>The shift\<close>

text \<open>
  Lines 133-140:
  \<^verbatim>\<open>
    acc1_scale = scale_x * scale_w1
    M1 = acc1_scale / (scale_h1_target if scale_h1_target > 0 else 1.0)
    shift1 = max(0, int(round(math.log2(M1)))) if M1 > 0 else 0
    scale_h1_eff = acc1_scale / (2**shift1)
  \<close>
\<close>

text \<open>
  The largest double is \<open>2 ^ 1024 - 2 ^ 971\<close>; a real of magnitude
  \<open>2 ^ 1024 - 2 ^ 970\<close> or more rounds to an infinity.
\<close>

definition overflow64 :: real where
  "overflow64 = 2 ^ 1024 - 2 ^ 970"

text \<open>
  \<open>M1\<close>: the divisor is positive, so the division does not raise; a quotient of
  Python floats is the exact quotient rounded to a double, or an infinity.
\<close>

definition multiplier :: "float_ops \<Rightarrow> real \<Rightarrow> real \<Rightarrow> pyfloat" where
  "multiplier fl acc_scale target =
     (let q = acc_scale / (if 0 < target then target else 1)
      in if overflow64 \<le> q then PInf
         else if q \<le> - overflow64 then NInf
         else Fin (rnd64 fl q))"

text \<open>
  \<open>shift1\<close>: \<^verbatim>\<open>M1 > 0\<close> is false of a NaN and of minus infinity;
  \<^verbatim>\<open>math.log2\<close> of plus infinity is plus infinity, of which \<^verbatim>\<open>round\<close> raises
  OverflowError.
\<close>

definition shift_of :: "float_ops \<Rightarrow> pyfloat \<Rightarrow> error + int" where
  "shift_of fl M =
     (case M of
        Fin m \<Rightarrow> Inr (if 0 < m then max 0 (round_half_even (flog2 fl m)) else 0)
      | PInf \<Rightarrow> Inl OverflowError
      | NInf \<Rightarrow> Inr 0
      | NaN \<Rightarrow> Inr 0)"

definition solve_shift :: "float_ops \<Rightarrow> real \<Rightarrow> real \<Rightarrow> error + int" where
  "solve_shift fl acc_scale target = shift_of fl (multiplier fl acc_scale target)"

text \<open>
  \<open>scale_h1_eff\<close>: the integer \<^verbatim>\<open>2**shift1\<close> is converted to a float, which raises
  OverflowError from \<open>2 ^ 1024\<close> on; dividing by it cannot overflow.
\<close>

definition effective_scale :: "float_ops \<Rightarrow> real \<Rightarrow> int \<Rightarrow> error + real" where
  "effective_scale fl acc_scale shift =
     (if 1024 \<le> shift then Inl OverflowError
      else Inr (rnd64 fl (acc_scale / 2 ^ nat shift)))"

subsection \<open>The script, lines 96-155\<close>

text \<open>
  Everything the script computes between calibration and export, as one record. Its
  inputs are the two trained layers, the flattened calibration batch \<^verbatim>\<open>x_flat\<close>
  and the flattened hidden activations \<^verbatim>\<open>h1_f\<close> of the float model on that batch
  (line 103; the float forward pass itself is not modelled), all of float32 values. The
  variable \<^verbatim>\<open>h1_q_sim\<close> of line 151 is never read and is left out.
\<close>

record quantized =
  scale_x :: real
  scale_w1 :: real
  scale_w2 :: real
  scale_h1_target :: real
  acc1_scale :: real
  M1 :: pyfloat
  scale_h1_eff :: real
  in2_scale :: real
  acc2_scale :: real
  shift2 :: nat
  pipe :: pipeline

definition build_pipeline ::
  "float_ops \<Rightarrow> linear \<Rightarrow> linear \<Rightarrow> real list \<Rightarrow> real list \<Rightarrow> error + quantized" where
  "build_pipeline fl fc1 fc2 x_flat h1_f =
     (case calc_scale_sym_fl fl x_flat 127 of
        Inl e \<Rightarrow> Inl e
      | Inr sx \<Rightarrow>
     (case calc_scale_sym_fl fl (concat (weight fc1)) 127 of
        Inl e \<Rightarrow> Inl e
      | Inr sw1 \<Rightarrow>
     (case calc_scale_sym_fl fl (concat (weight fc2)) 127 of
        Inl e \<Rightarrow> Inl e
      | Inr sw2 \<Rightarrow>
     (case calc_scale_sym_fl fl h1_f 127 of
        Inl e \<Rightarrow> Inl e
      | Inr target \<Rightarrow>
     (let (W1q, b1q) = quantize_linear fl fc1 sx sw1;
          acc1 = mul64 fl sx sw1;
          m = multiplier fl acc1 target
      in case shift_of fl m of
        Inl e \<Rightarrow> Inl e
      | Inr sh \<Rightarrow>
     (case effective_scale fl acc1 sh of
        Inl e \<Rightarrow> Inl e
      | Inr eff \<Rightarrow>
     (let in2 = eff;
          (W2q, b2q) = quantize_linear fl fc2 in2 sw2
      in Inr \<lparr>scale_x = sx, scale_w1 = sw1, scale_w2 = sw2, scale_h1_target = target,
               acc1_scale = acc1, M1 = m, scale_h1_eff = eff, in2_scale = in2,
               acc2_scale = mul64 fl in2 sw2, shift2 = 0,
               pipe = \<lparr>W1_q = W1q, b1_q = b1q, shift1 = nat sh,
                        W2_q = W2q, b2_q = b2q\<rparr>\<rparr>)))))))"

section \<open>The memory files\<close>

text \<open>
  A file is the string written to it. \<^verbatim>\<open>f"{n:02x}"\<close> and \<^verbatim>\<open>f"{n:08x}"\<close> format
  a non-negative integer in lowercase hexadecimal, padded with zeros on the left to the
  width.
\<close>

definition hex_digit :: "nat \<Rightarrow> char" where
  "hex_digit d = ''0123456789abcdef'' ! d"

fun to_hex :: "nat \<Rightarrow> string" where
  "to_hex n = (if n < 16 then [hex_digit n] else to_hex (n div 16) @ [hex_digit (n mod 16)])"

declare to_hex.simps [simp del]

definition format_x :: "nat \<Rightarrow> nat \<Rightarrow> string" where
  "format_x width n = replicate (width - length (to_hex n)) (CHR ''0'') @ to_hex n"

text \<open>\<^verbatim>\<open>sep.join(items)\<close>.\<close>

fun join :: "string \<Rightarrow> string list \<Rightarrow> string" where
  "join sep [] = []"
| "join sep [x] = x"
| "join sep (x # y # ys) = x @ sep @ join sep (y # ys)"

definition newline :: char where
  "newline = CHR 0x0A"

text \<open>
  \<^verbatim>\<open>f"{(int(v)&0xFF):02x}"\<close> for an int8 element and
  \<^verbatim>\<open>f"{(int(v)&0xFFFFFFFF):08x}"\<close> for an int32 element: Python's \<^verbatim>\<open>&\<close> on the
  signed value.
\<close>

definition byte_token :: "int8 \<Rightarrow> string" where
  "byte_token v = format_x 2 (nat (sint v AND 0xFF))"

definition word_token :: "int32 \<Rightarrow> string" where
  "word_token v = format_x 8 (nat (sint v AND 0xFFFFFFFF))"

text \<open>
  \<^verbatim>\<open>save_mem_int8(path, arr2d)\<close>, lines 83-86, and \<^verbatim>\<open>save_mem_int32(path, arr1d)\<close>,
  lines 88-91: the content of the file written.
\<close>

definition save_mem_int8 :: "int8 list list \<Rightarrow> string" where
  "save_mem_int8 arr2d = concat (map (\<lambda>row. join '' '' (map byte_token row) @ [newline]) arr2d)"

definition save_mem_int32 :: "int32 list \<Rightarrow> string" where
  "save_mem_int32 arr1d = concat (map (\<lambda>v. word_token v @ [newline]) arr1d)"

text \<open>
  Reading a file back: \<open>split c s\<close> cuts \<open>s\<close> at every \<open>c\<close> (Python's
  \<^verbatim>\<open>s.split(c)\<close>), and \<open>hex_value\<close> is the number a string of hexadecimal digits
  denotes.
\<close>

fun split :: "char \<Rightarrow> string \<Rightarrow> string list" where
  "split c [] = [[]]"
| "split c (x # xs) =
     (if x = c then [] # split c xs
      else (case split c xs of [] \<Rightarrow> [[x]] | w # ws \<Rightarrow> (x # w) # ws))"

definition hex_val :: "char \<Rightarrow> nat" where
  "hex_val c = length (takeWhile (\<lambda>d. d \<noteq> c) ''0123456789abcdef'')"

definition hex_value :: "string \<Rightarrow> nat" where
  "hex_value s = foldl (\<lambda>acc c. 16 * acc + hex_val c) 0 s"

section \<open>Properties of the integer operations\<close>

lemma sint_int8_to_int32: "sint (int8_to_int32 v) = sint v"
  by (simp add: int8_to_int32_def sint_up_scast is_up)

lemma int8_to_int32_eq: "int8_to_int32 v = word_of_int (sint v)"
  by (simp add: int8_to_int32_def)

lemma sum_list_map2_nth:
  "length xs = length ys \<Longrightarrow>
   sum_list (map2 f xs ys) = (\<Sum>j<length ys. (f (xs ! j) (ys ! j) :: int))"
proof -
  assume len: "length xs = length ys"
  have "sum_list (map2 f xs ys) = (\<Sum>j = 0..<length (map2 f xs ys). map2 f xs ys ! j)"
    by (rule sum_list_sum_nth)
  also have "\<dots> = (\<Sum>j = 0..<length ys. f (xs ! j) (ys ! j))"
    using len by (intro sum.cong) simp_all
  finally show ?thesis by (simp add: atLeast0LessThan)
qed

text \<open>The int32 accumulator is the exact integer dot product, reduced to 32 bits.\<close>

lemma dot_int32_sum_list:
  "dot_int32 row xq = word_of_int (sum_list (map2 (\<lambda>w x. sint w * sint x) row xq))"
proof (induction row arbitrary: xq)
  case Nil
  then show ?case by (simp add: dot_int32_def)
next
  case (Cons w row)
  show ?case
  proof (cases xq)
    case Nil
    then show ?thesis by (simp add: dot_int32_def)
  next
    case (Cons x xs)
    have "dot_int32 (w # row) (x # xs) = int8_to_int32 w * int8_to_int32 x + dot_int32 row xs"
      by (simp add: dot_int32_def)
    also have "\<dots> = word_of_int (sint w) * word_of_int (sint x)
        + word_of_int (sum_list (map2 (\<lambda>w x. sint w * sint x) row xs))"
      by (simp only: int8_to_int32_eq Cons.IH)
    also have "\<dots> =
        word_of_int (sint w * sint x + sum_list (map2 (\<lambda>w x. sint w * sint x) row xs))"
      by (simp only: of_int_add of_int_mult)
    finally show ?thesis using Cons by simp
  qed
qed

lemma dot_int32_eq:
  "length row = length xq \<Longrightarrow>
   dot_int32 row xq = word_of_int (\<Sum>j<length xq. sint (row ! j) * sint (xq ! j))"
  by (simp add: dot_int32_sum_list sum_list_map2_nth)

lemma sint_rshift_int32: "sint (rshift_int32 a n) = sint a div 2 ^ n"
  by (simp add: rshift_int32_def sint_signed_drop_bit_eq drop_bit_eq_div)

lemma word8_of_int_inrange:
  "- 128 \<le> c \<Longrightarrow> c \<le> 127 \<Longrightarrow> sint (word_of_int c :: int8) = c"
  by (simp add: sint_sbintrunc' signed_take_bit_int_eq_self)

lemma ucast_32_8_of_int: "(ucast (word_of_int c :: int32) :: int8) = word_of_int c"
  by (rule bit_word_eqI) (auto simp add: bit_simps)

text \<open>Shift, clamp and narrowing together: the narrowing loses nothing after the clamp.\<close>

lemma sint_requantize:
  "sint (requantize s a) = min (max (sint a div 2 ^ s) (- 128)) 127"
proof -
  let ?c = "min (max (sint (rshift_int32 a s)) (- 128)) (127::int)"
  have r: "- 128 \<le> ?c" "?c \<le> 127" by simp_all
  have "requantize s a = (ucast (word_of_int ?c :: int32) :: int8)"
    by (simp only: requantize_def int32_to_int8_def clamp_int32_def)
  also have "\<dots> = word_of_int ?c"
    by (rule ucast_32_8_of_int)
  finally have "sint (requantize s a) = sint (word_of_int ?c :: int8)" by simp
  also have "\<dots> = ?c"
    using r by (rule word8_of_int_inrange)
  finally show ?thesis by (simp only: sint_rshift_int32)
qed

lemma sint_relu_int8: "sint (relu_int8 h) = max (sint h) 0"
  by (simp add: relu_int8_def maximum_int8_def max_def)

section \<open>Properties of the simulator\<close>

lemma argmax_scan_first_max:
  "first_max pre best \<Longrightarrow>
   first_max (pre @ vs) (argmax_scan vs (length pre) best (pre ! best))"
proof (induction vs arbitrary: pre best)
  case Nil
  then show ?case by simp
next
  case (Cons v vs)
  from Cons.prems have b: "best < length pre"
    and mx: "\<forall>j<length pre. sint (pre ! j) \<le> sint (pre ! best)"
    and fst: "\<forall>j<best. sint (pre ! j) < sint (pre ! best)"
    by (simp_all add: first_max_def)
  show ?case
  proof (cases "sint (pre ! best) < sint v")
    case True
    have "first_max (pre @ [v]) (length pre)"
      unfolding first_max_def using mx True
      by (auto simp add: nth_append less_Suc_eq)
    from Cons.IH [OF this] True show ?thesis by simp
  next
    case False
    have "first_max (pre @ [v]) best"
      unfolding first_max_def using b mx fst False
      by (auto simp add: nth_append less_Suc_eq)
    from Cons.IH [OF this] False b show ?thesis by (simp add: nth_append)
  qed
qed

lemma argmax_first_max:
  "acc \<noteq> [] \<Longrightarrow> \<exists>r. argmax acc = Inr r \<and> first_max acc r"
proof (cases acc)
  case Nil
  assume "acc \<noteq> []"
  with Nil show ?thesis by simp
next
  case (Cons v vs)
  have "first_max [v] 0" by (simp add: first_max_def)
  from argmax_scan_first_max [OF this, of vs] Cons show ?thesis by simp
qed

lemma argmax_Inr_first_max: "argmax acc = Inr r \<Longrightarrow> first_max acc r"
  using argmax_first_max [of acc] by (cases acc) auto

lemma first_max_unique: "first_max xs r \<Longrightarrow> first_max xs r' \<Longrightarrow> r = r'"
  unfolding first_max_def by (metis linorder_neqE_nat not_less)

lemma int8_mm_int32_acc_Inr:
  "list_all (\<lambda>row. length row = length xq) Wq \<Longrightarrow>
   int8_mm_int32_acc Wq xq = Inr (map (\<lambda>row. dot_int32 row xq) Wq)"
  by (simp add: int8_mm_int32_acc_def)

lemma add_int32_Inr:
  "length a = length b \<Longrightarrow> add_int32 a b = Inr (map2 (+) a b)"
  by (simp add: add_int32_def)

text \<open>What the simulator returns when it returns.\<close>

lemma forward_quantized_Inr:
  assumes "forward_quantized p xq = Inr (pred, acc1, h1, acc2)"
  shows "\<exists>m1 m2.
     int8_mm_int32_acc (W1_q p) xq = Inr m1 \<and>
     add_int32 m1 (b1_q p) = Inr acc1 \<and>
     h1 = map relu_int8 (map (requantize (shift1 p)) acc1) \<and>
     int8_mm_int32_acc (W2_q p) h1 = Inr m2 \<and>
     add_int32 m2 (b2_q p) = Inr acc2 \<and>
     argmax acc2 = Inr pred"
  using assms unfolding forward_quantized_def Let_def
  by (auto split: sum.splits)

lemma forward_quantized_matching:
  assumes md: "matching_dims p xq"
  defines "acc1 \<equiv> map2 (+) (map (\<lambda>row. dot_int32 row xq) (W1_q p)) (b1_q p)"
  defines "h1 \<equiv> map relu_int8 (map (requantize (shift1 p)) acc1)"
  defines "acc2 \<equiv> map2 (+) (map (\<lambda>row. dot_int32 row h1) (W2_q p)) (b2_q p)"
  shows "\<exists>pred. forward_quantized p xq = Inr (pred, acc1, h1, acc2) \<and> first_max acc2 pred"
proof -
  from md have w1: "list_all (\<lambda>row. length row = length xq) (W1_q p)"
    and lb1: "length (b1_q p) = length (W1_q p)"
    and w2: "list_all (\<lambda>row. length row = length (W1_q p)) (W2_q p)"
    and lb2: "length (b2_q p) = length (W2_q p)"
    and ne: "W2_q p \<noteq> []"
    by (simp_all add: matching_dims_def)
  have lh: "length h1 = length (W1_q p)"
    by (simp add: h1_def acc1_def lb1)
  have s1: "int8_mm_int32_acc (W1_q p) xq = Inr (map (\<lambda>row. dot_int32 row xq) (W1_q p))"
    using w1 by (rule int8_mm_int32_acc_Inr)
  have s2: "add_int32 (map (\<lambda>row. dot_int32 row xq) (W1_q p)) (b1_q p) = Inr acc1"
    unfolding acc1_def by (rule add_int32_Inr) (simp add: lb1)
  have s3: "int8_mm_int32_acc (W2_q p) h1 = Inr (map (\<lambda>row. dot_int32 row h1) (W2_q p))"
    using w2 by (intro int8_mm_int32_acc_Inr) (simp add: lh)
  have s4: "add_int32 (map (\<lambda>row. dot_int32 row h1) (W2_q p)) (b2_q p) = Inr acc2"
    unfolding acc2_def by (rule add_int32_Inr) (simp add: lb2)
  have "length acc2 = length (W2_q p)" by (simp add: acc2_def lb2)
  with ne have "acc2 \<noteq> []" by auto
  then obtain pred where s5: "argmax acc2 = Inr pred" and fm: "first_max acc2 pred"
    using argmax_first_max by blast
  have "forward_quantized p xq = Inr (pred, acc1, h1, acc2)"
    by (simp only: forward_quantized_def Let_def s1 s2 h1_def [symmetric] s3 s4 s5 sum.case)
  with fm show ?thesis by blast
qed

lemma word_of_int_add_sint: "word_of_int (k + sint (b :: int32)) = (word_of_int k :: int32) + b"
  by simp

text \<open>
  C1. For a pipeline and an int8 input of matching dimensions the simulator returns, and
  its results are: \<open>acc1\<close>, entry by entry the integer dot product of a row of \<open>W1_q\<close>
  with the input plus the bias, in 32 bits; \<open>h1\<close>, the ReLU of the clamp to [-128, 127] of
  \<open>acc1\<close> shifted right arithmetically by \<open>shift1\<close> (the floor of the division by
  \<open>2 ^ shift1\<close>, which keeps the sign); \<open>acc2\<close>, the dot product of a row of \<open>W2_q\<close>
  with \<open>h1\<close> plus the bias, in 32 bits, with no shift and no clamp.
\<close>

theorem forward_quantized_layers:
  assumes md: "matching_dims p xq"
  shows "\<exists>pred acc1 h1 acc2.
     forward_quantized p xq = Inr (pred, acc1, h1, acc2) \<and>
     length acc1 = length (W1_q p) \<and>
     length h1 = length (W1_q p) \<and>
     length acc2 = length (W2_q p) \<and>
     (\<forall>i<length (W1_q p). acc1 ! i =
        word_of_int ((\<Sum>j<length xq. sint (W1_q p ! i ! j) * sint (xq ! j)) + sint (b1_q p ! i))) \<and>
     (\<forall>i<length (W1_q p). sint (h1 ! i) =
        max (min (max (sint (acc1 ! i) div 2 ^ shift1 p) (- 128)) 127) 0) \<and>
     (\<forall>k<length (W2_q p). acc2 ! k =
        word_of_int ((\<Sum>i<length h1. sint (W2_q p ! k ! i) * sint (h1 ! i)) + sint (b2_q p ! k)))"
proof -
  define acc1 where "acc1 = map2 (+) (map (\<lambda>row. dot_int32 row xq) (W1_q p)) (b1_q p)"
  define h1 where "h1 = map relu_int8 (map (requantize (shift1 p)) acc1)"
  define acc2 where "acc2 = map2 (+) (map (\<lambda>row. dot_int32 row h1) (W2_q p)) (b2_q p)"
  from md have w1: "\<forall>row\<in>set (W1_q p). length row = length xq"
    and lb1: "length (b1_q p) = length (W1_q p)"
    and w2: "\<forall>row\<in>set (W2_q p). length row = length (W1_q p)"
    and lb2: "length (b2_q p) = length (W2_q p)"
    by (simp_all add: matching_dims_def list_all_iff)
  from forward_quantized_matching [OF md]
  obtain pred where run: "forward_quantized p xq = Inr (pred, acc1, h1, acc2)"
    unfolding acc1_def h1_def acc2_def by blast
  have l1: "length acc1 = length (W1_q p)" by (simp add: acc1_def lb1)
  have lh: "length h1 = length (W1_q p)" by (simp add: h1_def l1)
  have l2: "length acc2 = length (W2_q p)" by (simp add: acc2_def lb2)
  have a1: "acc1 ! i =
      word_of_int ((\<Sum>j<length xq. sint (W1_q p ! i ! j) * sint (xq ! j)) + sint (b1_q p ! i))"
    if "i < length (W1_q p)" for i
  proof -
    from that w1 have "length (W1_q p ! i) = length xq" by simp
    then have "dot_int32 (W1_q p ! i) xq =
        word_of_int (\<Sum>j<length xq. sint (W1_q p ! i ! j) * sint (xq ! j))"
      by (rule dot_int32_eq)
    with that lb1 show ?thesis
      by (simp only: acc1_def word_of_int_add_sint) simp
  qed
  have hh: "sint (h1 ! i) = max (min (max (sint (acc1 ! i) div 2 ^ shift1 p) (- 128)) 127) 0"
    if "i < length (W1_q p)" for i
    using that l1 by (simp add: h1_def sint_relu_int8 sint_requantize)
  have a2: "acc2 ! k =
      word_of_int ((\<Sum>i<length h1. sint (W2_q p ! k ! i) * sint (h1 ! i)) + sint (b2_q p ! k))"
    if "k < length (W2_q p)" for k
  proof -
    from that w2 lh have "length (W2_q p ! k) = length h1" by simp
    then have "dot_int32 (W2_q p ! k) h1 =
        word_of_int (\<Sum>i<length h1. sint (W2_q p ! k ! i) * sint (h1 ! i))"
      by (rule dot_int32_eq)
    with that lb2 show ?thesis
      by (simp only: acc2_def word_of_int_add_sint) simp
  qed
  from run l1 lh l2 a1 hh a2 show ?thesis by blast
qed

theorem forward_quantized_layers_witness:
  "matching_dims
     \<lparr>W1_q = [[1, - 2], [3, 4]], b1_q = [- 7, 5], shift1 = 1,
        W2_q = [[1, 1], [2, - 1]], b2_q = [0, 3]\<rparr> [3, 5] \<and>
   forward_quantized
     \<lparr>W1_q = [[1, - 2], [3, 4]], b1_q = [- 7, 5], shift1 = 1,
        W2_q = [[1, 1], [2, - 1]], b2_q = [0, 3]\<rparr> [3, 5]
     = Inr (0, [- 14, 34], [0, 17], [17, - 14]) \<and>
   rshift_int32 (- 14) 1 = - 7 \<and> drop_bit 1 (- 14 :: int32) = 2147483641"
  using forward_quantized_layers [of
      "\<lparr>W1_q = [[1, - 2], [3, 4]], b1_q = [- 7, 5], shift1 = 1,
        W2_q = [[1, 1], [2, - 1]], b2_q = [0, 3]\<rparr>" "[3, 5]"]
  by (simp add: matching_dims_def forward_quantized_def int8_mm_int32_acc_def dot_int32_def add_int32_def
      requantize_def relu_int8_def maximum_int8_def clamp_int32_def rshift_int32_def
      int8_to_int32_def int32_to_int8_def)

lemma first_max_Max:
  assumes fm: "first_max acc r"
  shows "r < length acc \<and> sint (acc ! r) = Max (sint ` set acc) \<and>
     (\<forall>j<r. sint (acc ! j) < sint (acc ! r))"
proof -
  from fm have lt: "r < length acc"
    and mx: "\<forall>j<length acc. sint (acc ! j) \<le> sint (acc ! r)"
    and fst: "\<forall>j<r. sint (acc ! j) < sint (acc ! r)"
    by (simp_all add: first_max_def)
  have "Max (sint ` set acc) = sint (acc ! r)"
  proof (rule Max_eqI)
    show "finite (sint ` set acc)" by simp
    show "sint (acc ! r) \<in> sint ` set acc" using lt by simp
    fix y assume "y \<in> sint ` set acc"
    then obtain j where "j < length acc" "y = sint (acc ! j)"
      by (auto simp add: in_set_conv_nth)
    with mx show "y \<le> sint (acc ! r)" by simp
  qed
  with lt fst show ?thesis by simp
qed

text \<open>
  C3. On a pipeline and an input of matching dimensions the simulator returns a
  prediction; whenever it returns, the prediction is an index of the logits \<open>acc2\<close> it
  returns, the logit there is the maximum (signed) of \<open>acc2\<close>, and every earlier logit
  is strictly smaller: the first occurrence of the maximum. The same holds of \<open>argmax\<close>
  on every non-empty int32 vector.
\<close>

theorem prediction_first_maximum:
  "(matching_dims p xq \<longrightarrow>
      (\<exists>pred acc1 h1 acc2. forward_quantized p xq = Inr (pred, acc1, h1, acc2))) \<and>
   (\<forall>pred acc1 h1 acc2. forward_quantized p xq = Inr (pred, acc1, h1, acc2) \<longrightarrow>
      pred < length acc2 \<and>
      sint (acc2 ! pred) = Max (sint ` set acc2) \<and>
      (\<forall>j<pred. sint (acc2 ! j) < sint (acc2 ! pred))) \<and>
   (\<forall>acc. acc \<noteq> [] \<longrightarrow>
      (\<exists>r. argmax acc = Inr r \<and> r < length acc \<and>
         sint (acc ! r) = Max (sint ` set acc) \<and>
         (\<forall>j<r. sint (acc ! j) < sint (acc ! r))))"
proof -
  have returns: "\<exists>pred acc1 h1 acc2. forward_quantized p xq = Inr (pred, acc1, h1, acc2)"
    if "matching_dims p xq"
    using forward_quantized_matching [OF that] by blast
  have first: "pred < length acc2 \<and>
      sint (acc2 ! pred) = Max (sint ` set acc2) \<and>
      (\<forall>j<pred. sint (acc2 ! j) < sint (acc2 ! pred))"
    if "forward_quantized p xq = Inr (pred, acc1, h1, acc2)" for pred acc1 h1 acc2
  proof -
    from forward_quantized_Inr [OF that] have "argmax acc2 = Inr pred" by blast
    then have "first_max acc2 pred" by (rule argmax_Inr_first_max)
    then show ?thesis by (rule first_max_Max)
  qed
  have vector: "\<exists>r. argmax acc = Inr r \<and> r < length acc \<and>
         sint (acc ! r) = Max (sint ` set acc) \<and>
         (\<forall>j<r. sint (acc ! j) < sint (acc ! r))"
    if "acc \<noteq> []" for acc
  proof -
    from argmax_first_max [OF that] obtain r where "argmax acc = Inr r" "first_max acc r"
      by blast
    with first_max_Max [of acc r] show ?thesis by blast
  qed
  from returns first vector show ?thesis by blast
qed

text \<open>
  A run of the simulator whose logits tie: \<open>acc2 = [-7, 7, 7, 4]\<close>, and the prediction
  is 1, the lower of the two indices that hold 7 (and not 0, whose logit would be the
  largest if read unsigned).
\<close>

theorem prediction_first_maximum_witness:
  "matching_dims
     \<lparr>W1_q = [[1, 0], [0, 1]], b1_q = [0, 0], shift1 = 0,
        W2_q = [[1, 0], [1, 1], [1, 1], [0, 1]], b2_q = [- 10, 0, 0, 0]\<rparr> [3, 4] \<and>
   forward_quantized
     \<lparr>W1_q = [[1, 0], [0, 1]], b1_q = [0, 0], shift1 = 0,
        W2_q = [[1, 0], [1, 1], [1, 1], [0, 1]], b2_q = [- 10, 0, 0, 0]\<rparr> [3, 4]
     = Inr (1, [3, 4], [3, 4], [- 7, 7, 7, 4]) \<and>
   (1 :: nat) < length [- 7, 7, 7, 4 :: int32] \<and>
   sint ([- 7, 7, 7, 4 :: int32] ! 1) = Max (sint ` set [- 7, 7, 7, 4 :: int32])"
proof -
  let ?p = "\<lparr>W1_q = [[1, 0], [0, 1]], b1_q = [0, 0], shift1 = 0,
        W2_q = [[1, 0], [1, 1], [1, 1], [0, 1]], b2_q = [- 10, 0, 0, 0]\<rparr>"
  have md: "matching_dims ?p [3, 4]"
    by (simp add: matching_dims_def)
  have run: "forward_quantized ?p [3, 4] = Inr (1, [3, 4], [3, 4], [- 7, 7, 7, 4])"
    by (simp add: forward_quantized_def int8_mm_int32_acc_def dot_int32_def add_int32_def
        requantize_def relu_int8_def maximum_int8_def clamp_int32_def rshift_int32_def
        int8_to_int32_def int32_to_int8_def)
  from prediction_first_maximum [of ?p "[3, 4]"] run
  have "(1 :: nat) < length [- 7, 7, 7, 4 :: int32] \<and>
      sint ([- 7, 7, 7, 4 :: int32] ! 1) = Max (sint ` set [- 7, 7, 7, 4 :: int32])"
    by blast
  with md run show ?thesis by blast
qed

text \<open>
  C9. Two runs of the simulator on pipelines with the same \<open>W1_q\<close>, \<open>b1_q\<close>,
  \<open>shift1\<close>, \<open>W2_q\<close> and \<open>b2_q\<close> and on the same int8 input return the same tuple
  (prediction, \<open>acc1\<close>, \<open>h1\<close>, \<open>acc2\<close>): the simulator is a function of these five
  values and the input and reads nothing else.
\<close>

theorem forward_quantized_deterministic:
  assumes "W1_q p = W1_q p'" and "b1_q p = b1_q p'" and "shift1 p = shift1 p'"
    and "W2_q p = W2_q p'" and "b2_q p = b2_q p'" and "xq = xq'"
  shows "forward_quantized p xq = forward_quantized p' xq'"
  unfolding forward_quantized_def assms by (rule refl)

theorem forward_quantized_deterministic_witness:
  "forward_quantized
     \<lparr>W1_q = [[2, 0], [0, - 2]], b1_q = [1, 1], shift1 = 0,
        W2_q = [[1, 0], [0, 1], [1, 1]], b2_q = [0, 0, 0]\<rparr> [4, 5]
     = Inr (0, [9, - 9], [9, 0], [9, 0, 9]) \<and>
   forward_quantized
     \<lparr>W1_q = [[2, 0], [0, - 2]], b1_q = [1, 1], shift1 = 0,
        W2_q = [[1, 0], [0, 1], [1, 1]], b2_q = [0, 0, 0]\<rparr> [4, 5]
     = forward_quantized
     \<lparr>W1_q = [[2, 0], [0, - 2]], b1_q = [1, 1], shift1 = 0,
        W2_q = [[1, 0], [0, 1], [1, 1]], b2_q = [0, 0, 0]\<rparr> [4, 5]"
  using forward_quantized_deterministic [OF refl refl refl refl refl refl, of
      "\<lparr>W1_q = [[2, 0], [0, - 2]], b1_q = [1, 1], shift1 = 0,
        W2_q = [[1, 0], [0, 1], [1, 1]], b2_q = [0, 0, 0]\<rparr>" "[4, 5]"]
  by (simp add: forward_quantized_def int8_mm_int32_acc_def dot_int32_def add_int32_def
      requantize_def relu_int8_def maximum_int8_def clamp_int32_def rshift_int32_def
      int8_to_int32_def int32_to_int8_def)

text \<open>
  C10. Every element of the hidden activation \<open>h1\<close> that the simulator returns lies in
  [0, 127], so the vector fed to the second matrix product is a non-negative int8
  vector; and the simulator does return on a pipeline and an input of matching
  dimensions.
\<close>

theorem hidden_activation_range:
  "(matching_dims p xq \<longrightarrow> (\<exists>r. forward_quantized p xq = Inr r)) \<and>
   (\<forall>pred acc1 h1 acc2. forward_quantized p xq = Inr (pred, acc1, h1, acc2) \<longrightarrow>
      (\<forall>h\<in>set h1. 0 \<le> sint h \<and> sint h \<le> 127))"
proof (intro conjI impI allI)
  assume "matching_dims p xq"
  from forward_quantized_matching [OF this] show "\<exists>r. forward_quantized p xq = Inr r"
    by blast
next
  fix pred acc1 h1 acc2
  assume "forward_quantized p xq = Inr (pred, acc1, h1, acc2)"
  from forward_quantized_Inr [OF this]
  have h1: "h1 = map relu_int8 (map (requantize (shift1 p)) acc1)" by blast
  show "\<forall>h\<in>set h1. 0 \<le> sint h \<and> sint h \<le> 127"
    unfolding h1 by (auto simp add: sint_relu_int8 sint_requantize)
qed

theorem hidden_activation_range_witness:
  "matching_dims
     \<lparr>W1_q = [[127, 127], [- 128, 1]], b1_q = [0, 0], shift1 = 0,
        W2_q = [[1, 0], [2, 1]], b2_q = [0, 0]\<rparr> [127, 127] \<and>
   forward_quantized
     \<lparr>W1_q = [[127, 127], [- 128, 1]], b1_q = [0, 0], shift1 = 0,
        W2_q = [[1, 0], [2, 1]], b2_q = [0, 0]\<rparr> [127, 127]
     = Inr (1, [32258, - 16129], [127, 0], [127, 254]) \<and>
   list_all (\<lambda>h. 0 \<le> sint h \<and> sint h \<le> 127) [127, 0 :: int8]"
  using hidden_activation_range [of
      "\<lparr>W1_q = [[127, 127], [- 128, 1]], b1_q = [0, 0], shift1 = 0,
        W2_q = [[1, 0], [2, 1]], b2_q = [0, 0]\<rparr>" "[127, 127]"]
  by (simp add: matching_dims_def forward_quantized_def int8_mm_int32_acc_def dot_int32_def add_int32_def
      requantize_def relu_int8_def maximum_int8_def clamp_int32_def rshift_int32_def
      int8_to_int32_def int32_to_int8_def)

section \<open>Rounding and conversions\<close>

lemma round_half_even_unfold:
  fixes x :: real
  defines "f \<equiv> \<lfloor>x\<rfloor>"
  shows "round_half_even x =
     (if x - of_int f < 1 / 2 then f
      else if 1 / 2 < x - of_int f then f + 1
      else if even f then f else f + 1)"
  by (simp add: round_half_even_def Let_def f_def)

lemma round_half_even_cases:
  "round_half_even x = \<lfloor>x\<rfloor> \<or> round_half_even x = \<lfloor>x\<rfloor> + 1"
  by (simp add: round_half_even_def Let_def)

lemma round_half_even_near: "\<bar>of_int (round_half_even x) - x\<bar> \<le> 1 / 2"
proof -
  define f where "f = \<lfloor>x\<rfloor>"
  have fl: "of_int f \<le> x" "x < of_int f + 1" unfolding f_def by linarith+
  note r = round_half_even_unfold [of x, folded f_def]
  consider (lo) "x - of_int f < 1 / 2" | (hi) "1 / 2 < x - of_int f" | (tie) "x - of_int f = 1 / 2"
    by linarith
  then show ?thesis
  proof cases
    case lo
    then have "round_half_even x = f" by (simp add: r)
    with fl lo show ?thesis by simp
  next
    case hi
    then have "round_half_even x = f + 1" by (simp add: r)
    with fl hi show ?thesis by simp
  next
    case tie
    from round_half_even_cases [of x] show ?thesis
    proof
      assume "round_half_even x = \<lfloor>x\<rfloor>"
      with tie show ?thesis by (simp add: f_def)
    next
      assume "round_half_even x = \<lfloor>x\<rfloor> + 1"
      with tie show ?thesis by (simp add: f_def)
    qed
  qed
qed

lemma round_half_even_tie:
  assumes tie: "\<bar>of_int (round_half_even x) - x\<bar> = 1 / 2"
  shows "even (round_half_even x)"
proof -
  define f where "f = \<lfloor>x\<rfloor>"
  have fl: "of_int f \<le> x" "x < of_int f + 1" unfolding f_def by linarith+
  note r = round_half_even_unfold [of x, folded f_def]
  consider (lo) "x - of_int f < 1 / 2" | (hi) "1 / 2 < x - of_int f" | (mid) "x - of_int f = 1 / 2"
    by linarith
  then show ?thesis
  proof cases
    case lo
    then have "round_half_even x = f" by (simp add: r)
    with fl lo tie show ?thesis by simp
  next
    case hi
    then have "round_half_even x = f + 1" by (simp add: r)
    with fl hi tie show ?thesis by simp
  next
    case mid
    then show ?thesis by (simp add: r)
  qed
qed

lemma round_half_even_of_int: "round_half_even (of_int k) = k"
  by (simp add: round_half_even_def Let_def)

lemma round_half_even_nonpos:
  assumes x: "x \<le> 0"
  shows "round_half_even x \<le> 0"
proof (cases "\<lfloor>x\<rfloor> = 0")
  case True
  have "of_int \<lfloor>x\<rfloor> \<le> x" by linarith
  with True x have "x = of_int 0" by simp
  then show ?thesis by (simp only: round_half_even_of_int)
next
  case False
  from x have "\<lfloor>x\<rfloor> \<le> 0" by simp
  with False have le: "\<lfloor>x\<rfloor> + 1 \<le> 0" by linarith
  have "round_half_even x \<le> \<lfloor>x\<rfloor> + 1"
    using round_half_even_cases [of x] by (elim disjE) simp_all
  with le show ?thesis by linarith
qed

lemma round_half_even_examples:
  "round_half_even (1 / 2) = 0" "round_half_even (3 / 2) = 2" "round_half_even (5 / 2) = 2"
  "round_half_even (- 1 / 2) = 0" "round_half_even (- 3 / 2) = - 2"
  "round_half_even (4 / 10) = 0"
  by (simp_all add: round_half_even_def Let_def)

lemma trunc_of_int: "trunc (of_int k) = k"
  by (simp add: trunc_def)

lemma sint_clamp_int8_of_int:
  "sint (clamp_int8 (of_int k)) = min (max k (- 128)) 127"
proof -
  let ?c = "min (max k (- 128)) (127 :: int)"
  have "min (max (of_int k) (- 128)) (127 :: real) = of_int ?c"
    by (simp add: min_def max_def)
  then have "clamp_int8 (of_int k) = word_of_int ?c"
    by (simp only: clamp_int8_def trunc_of_int)
  moreover have "sint (word_of_int ?c :: int8) = ?c"
    by (rule word8_of_int_inrange) simp_all
  ultimately show ?thesis by simp
qed

lemma sint_quantize_value:
  "sint (quantize_value fl v s) = min (max (round_half_even (div32 fl v s)) (- 128)) 127"
  by (simp only: quantize_value_def torch_round_def sint_clamp_int8_of_int)

lemma sint_float_to_int32_of_int:
  "- 2147483648 \<le> k \<Longrightarrow> k \<le> 2147483647 \<Longrightarrow> sint (float_to_int32 ovf (of_int k)) = k"
  by (simp add: float_to_int32_def trunc_of_int sint_sbintrunc' signed_take_bit_int_eq_self)


section \<open>Properties of the quantizer\<close>

text \<open>
  Rounding and clamping a real \<open>y\<close> moves it by at most one half exactly when \<open>y\<close>
  lies in [-128.5, 127.5].
\<close>

lemma clamp_round_near:
  fixes y :: real
  defines "q \<equiv> min (max (round_half_even y) (- 128)) 127"
  shows "\<bar>of_int q - y\<bar> \<le> 1 / 2 \<longleftrightarrow> - 128.5 \<le> y \<and> y \<le> 127.5"
proof -
  define r where "r = round_half_even y"
  have q: "q = min (max r (- 128)) 127" by (simp add: q_def r_def)
  have near: "\<bar>of_int r - y\<bar> \<le> 1 / 2" unfolding r_def by (rule round_half_even_near)
  have tie: "\<bar>of_int r - y\<bar> = 1 / 2 \<Longrightarrow> even r" unfolding r_def by (rule round_half_even_tie)
  have qr: "- 128 \<le> q" "q \<le> 127" by (simp_all add: q)
  show ?thesis
  proof
    assume a: "\<bar>of_int q - y\<bar> \<le> 1 / 2"
    from qr have "- 128 \<le> (of_int q :: real)" "(of_int q :: real) \<le> 127"
      by simp_all
    with a show "- 128.5 \<le> y \<and> y \<le> 127.5" by linarith
  next
    assume b: "- 128.5 \<le> y \<and> y \<le> 127.5"
    consider (inr) "- 128 \<le> r" "r \<le> 127" | (hi) "128 \<le> r" | (lo) "r \<le> - 129"
      by linarith
    then show "\<bar>of_int q - y\<bar> \<le> 1 / 2"
    proof cases
      case inr
      then have "q = r" by (simp add: q)
      with near show ?thesis by simp
    next
      case hi
      then have "(128 :: real) \<le> of_int r" by simp
      with near b have "y = 127.5" by linarith
      moreover from hi have "q = 127" by (simp add: q)
      ultimately show ?thesis by simp
    next
      case lo
      then have le: "of_int r \<le> (- 129 :: real)" by simp
      with near b have yv: "y = - 128.5" by linarith
      with near le have rv: "of_int r = (- 129 :: real)" by linarith
      then have "r = - 129" by linarith
      moreover from rv yv have "\<bar>of_int r - y\<bar> = 1 / 2" by simp
      then have "even r" by (rule tie)
      ultimately show ?thesis by simp
    qed
  qed
qed

lemma scaled_error:
  fixes s v y k :: real
  assumes s: "0 < s"
  shows "\<bar>k * s - v\<bar> = s * \<bar>k - v / s\<bar>"
proof -
  have "k * s - v = s * (k - v / s)" using s by (simp add: field_simps)
  then have "\<bar>k * s - v\<bar> = \<bar>s\<bar> * \<bar>k - v / s\<bar>" by (simp only: abs_mult)
  with s show ?thesis by simp
qed

text \<open>
  C7, amended. For every real \<open>v\<close> and every scale \<open>s > 0\<close> whose float quotient
  \<open>y\<close> lies in [-128.5, 127.5], the quantized value times \<open>s\<close> is within
  \<open>s / 2 + s * \<bar>y - v / s\<bar>\<close> of \<open>v\<close>: one half of a step plus the rounding error of
  the division. Where the division is exact, the result is within \<open>s / 2\<close> of \<open>v\<close>
  exactly when \<open>-128.5 * s \<le> v \<le> 127.5 * s\<close>.
\<close>

theorem dequantize_error_bound:
  assumes s: "0 < s"
  shows "(- 128.5 \<le> div32 fl v s \<and> div32 fl v s \<le> 127.5 \<longrightarrow>
      \<bar>of_int (sint (quantize_value fl v s)) * s - v\<bar>
        \<le> s / 2 + s * \<bar>div32 fl v s - v / s\<bar>) \<and>
     (div32 fl v s = v / s \<longrightarrow>
      (\<bar>of_int (sint (quantize_value fl v s)) * s - v\<bar> \<le> s / 2
        \<longleftrightarrow> - 128.5 * s \<le> v \<and> v \<le> 127.5 * s))"
proof (intro conjI impI)
  define y where "y = div32 fl v s"
  define q where "q = min (max (round_half_even y) (- 128)) 127"
  have qv: "sint (quantize_value fl v s) = q"
    by (simp add: sint_quantize_value q_def y_def)
  assume "- 128.5 \<le> div32 fl v s \<and> div32 fl v s \<le> 127.5"
  then have "\<bar>of_int q - y\<bar> \<le> 1 / 2"
    using clamp_round_near [of y] by (simp add: q_def y_def)
  moreover have "\<bar>of_int q - v / s\<bar> \<le> \<bar>of_int q - y\<bar> + \<bar>y - v / s\<bar>" by linarith
  ultimately have "\<bar>of_int q - v / s\<bar> \<le> 1 / 2 + \<bar>y - v / s\<bar>" by linarith
  with s have "s * \<bar>of_int q - v / s\<bar> \<le> s * (1 / 2 + \<bar>y - v / s\<bar>)"
    by (simp only: mult_le_cancel_left_pos)
  then have "\<bar>of_int q * s - v\<bar> \<le> s / 2 + s * \<bar>y - v / s\<bar>"
    by (simp only: scaled_error [OF s]) (simp add: algebra_simps)
  then show "\<bar>of_int (sint (quantize_value fl v s)) * s - v\<bar>
        \<le> s / 2 + s * \<bar>div32 fl v s - v / s\<bar>"
    by (simp only: qv y_def)
next
  define q where "q = min (max (round_half_even (v / s)) (- 128)) 127"
  assume ex: "div32 fl v s = v / s"
  then have qv: "sint (quantize_value fl v s) = q"
    by (simp add: sint_quantize_value q_def)
  have "\<bar>of_int q * s - v\<bar> \<le> s / 2 \<longleftrightarrow> s * \<bar>of_int q - v / s\<bar> \<le> s * (1 / 2)"
    by (simp only: scaled_error [OF s]) simp
  also have "\<dots> \<longleftrightarrow> \<bar>of_int q - v / s\<bar> \<le> 1 / 2"
    using s by (simp only: mult_le_cancel_left_pos)
  also have "\<dots> \<longleftrightarrow> - 128.5 \<le> v / s \<and> v / s \<le> 127.5"
    unfolding q_def by (rule clamp_round_near)
  also have "\<dots> \<longleftrightarrow> - 128.5 * s \<le> v \<and> v \<le> 127.5 * s"
    using s by (simp add: pos_le_divide_eq pos_divide_le_eq)
  finally show "\<bar>of_int (sint (quantize_value fl v s)) * s - v\<bar> \<le> s / 2
        \<longleftrightarrow> - 128.5 * s \<le> v \<and> v \<le> 127.5 * s"
    by (simp only: qv)
qed

lemma exact_ops_simps:
  "div32 exact_ops a s = a / s" "mul64 exact_ops x y = x * y" "rnd64 exact_ops q = q"
  "flog2 exact_ops x = log 2 x" "ovf32 exact_ops a = - 2147483648"
  by (simp_all add: exact_ops_def)

text \<open>
  The float32 quotient of 0.375 by 0.25 is exactly 1.5, a tie, which rounds to 2: the
  error is 0.125, one half of the scale.
\<close>

theorem dequantize_error_bound_witness:
  "(0 :: real) < 1 / 4 \<and>
   - 128.5 \<le> div32 exact_ops (3 / 8) (1 / 4) \<and> div32 exact_ops (3 / 8) (1 / 4) \<le> 127.5 \<and>
   sint (quantize_value exact_ops (3 / 8) (1 / 4)) = 2 \<and>
   \<bar>of_int (sint (quantize_value exact_ops (3 / 8) (1 / 4))) * (1 / 4) - 3 / 8\<bar>
     \<le> (1 / 4 :: real) / 2 + 1 / 4 * \<bar>div32 exact_ops (3 / 8) (1 / 4) - 3 / 8 / (1 / 4)\<bar>"
proof -
  have p: "(0 :: real) < 1 / 4" by simp
  have r: "- 128.5 \<le> div32 exact_ops (3 / 8) (1 / 4) \<and> div32 exact_ops (3 / 8) (1 / 4) \<le> 127.5"
    by (simp add: exact_ops_simps)
  have v: "sint (quantize_value exact_ops (3 / 8) (1 / 4)) = 2"
    by (simp add: sint_quantize_value exact_ops_simps round_half_even_def)
  from dequantize_error_bound [OF p, of exact_ops "3 / 8"] r
  have "\<bar>of_int (sint (quantize_value exact_ops (3 / 8) (1 / 4))) * (1 / 4) - 3 / 8\<bar>
     \<le> (1 / 4 :: real) / 2 + 1 / 4 * \<bar>div32 exact_ops (3 / 8) (1 / 4) - 3 / 8 / (1 / 4)\<bar>"
    by blast
  with p r v show ?thesis by blast
qed

text \<open>
  The claim as stated, for every real \<open>v\<close>, fails where the clamp saturates: \<open>v = 200\<close>
  at scale 1 is quantized to 127.
\<close>

theorem dequantize_error_counterexample:
  "(0 :: real) < 1 \<and> sint (quantize_value exact_ops 200 1) = 127 \<and>
   \<not> \<bar>of_int (sint (quantize_value exact_ops 200 1)) * 1 - 200\<bar> \<le> (0.5 :: real) * 1"
proof -
  have "round_half_even 200 = 200"
    using round_half_even_of_int [of 200] by simp
  then have "sint (quantize_value exact_ops 200 1) = 127"
    by (simp add: sint_quantize_value exact_ops_simps)
  then show ?thesis by simp
qed






lemma calc_scale_sym_fl_exact:
  "rnd64 fl = (\<lambda>q. q) \<Longrightarrow> calc_scale_sym_fl fl t k = calc_scale_sym t k"
  by (simp add: calc_scale_sym_fl_def calc_scale_sym_def)

lemma overflow64_pos: "0 < overflow64"
proof -
  have "(2 :: real) ^ 970 < 2 ^ 1024" by (rule power_strict_increasing) simp_all
  then show ?thesis by (simp only: overflow64_def diff_gt_0_iff_gt)
qed

lemma multiplier_overflow:
  assumes "overflow64 \<le> acc_scale / (if 0 < target then target else 1)"
  shows "multiplier fl acc_scale target = PInf"
  using assms by (simp add: multiplier_def Let_def)

lemma multiplier_finite:
  assumes "0 < acc_scale" and "acc_scale / (if 0 < target then target else 1) < overflow64"
  shows "multiplier fl acc_scale target =
     Fin (rnd64 fl (acc_scale / (if 0 < target then target else 1)))"
proof -
  let ?q = "acc_scale / (if 0 < target then target else 1)"
  from assms(1) have "0 < ?q" by simp
  with overflow64_pos have "\<not> ?q \<le> - overflow64" by linarith
  with assms(2) show ?thesis by (simp add: multiplier_def Let_def)
qed

lemma shift_of_Fin:
  "shift_of fl (Fin m) = Inr (if 0 < m then max 0 (round_half_even (flog2 fl m)) else 0)"
  by (simp add: shift_of_def)

lemma shift_of_nonneg: "shift_of fl M = Inr sh \<Longrightarrow> 0 \<le> sh"
  by (cases M) (auto simp add: shift_of_def)

lemma shift_of_le_one:
  assumes "0 < m" and "m \<le> 1" and "flog2 fl m \<le> 0"
  shows "shift_of fl (Fin m) = Inr 0"
proof -
  from assms(3) have "round_half_even (flog2 fl m) \<le> 0" by (rule round_half_even_nonpos)
  with assms(1) show ?thesis by (simp add: shift_of_Fin)
qed

text \<open>
  C4, amended. Let \<open>S_acc > 0\<close>, let \<open>q\<close> be the exact quotient of \<open>S_acc\<close> by
  \<open>S_target\<close> when \<open>S_target > 0\<close> and \<open>S_acc\<close> itself otherwise, and let \<open>M\<close> be the
  double it rounds to. When \<open>q\<close> is below the overflow threshold of doubles the shift
  solver returns \<open>max 0 (round (log2 M))\<close> if \<open>M > 0\<close> and 0 if \<open>M\<close> has underflowed
  to 0; the shift returned is never negative, and it is 0 for \<open>M\<close> in (0, 1], given
  that \<^verbatim>\<open>math.log2\<close> is not positive there. When \<open>q\<close> reaches the threshold, \<open>M\<close> is
  infinite, \<^verbatim>\<open>round\<close> raises OverflowError and no shift is returned.
\<close>

theorem solve_shift_spec:
  assumes "0 < S_acc" and "q = S_acc / (if 0 < S_target then S_target else 1)"
    and "\<forall>x. 0 < x \<and> x \<le> 1 \<longrightarrow> flog2 fl x \<le> 0"
  shows "(overflow64 \<le> q \<longrightarrow> solve_shift fl S_acc S_target = Inl OverflowError) \<and>
     (q < overflow64 \<longrightarrow>
        (\<exists>sh. solve_shift fl S_acc S_target = Inr sh \<and> 0 \<le> sh \<and>
           sh = (if 0 < rnd64 fl q
                 then max 0 (round_half_even (flog2 fl (rnd64 fl q))) else 0) \<and>
           (0 < rnd64 fl q \<and> rnd64 fl q \<le> 1 \<longrightarrow> sh = 0)))"
proof (intro conjI impI)
  assume "overflow64 \<le> q"
  then have "multiplier fl S_acc S_target = PInf"
    unfolding assms(2) by (rule multiplier_overflow)
  then show "solve_shift fl S_acc S_target = Inl OverflowError"
    by (simp add: solve_shift_def shift_of_def)
next
  assume "q < overflow64"
  then have m: "multiplier fl S_acc S_target = Fin (rnd64 fl q)"
    unfolding assms(2) by (rule multiplier_finite [OF assms(1)])
  let ?sh = "if 0 < rnd64 fl q then max 0 (round_half_even (flog2 fl (rnd64 fl q))) else 0"
  have run: "solve_shift fl S_acc S_target = Inr ?sh"
    by (simp only: solve_shift_def m shift_of_Fin)
  have nonneg: "0 \<le> ?sh" by simp
  have "?sh = 0" if "0 < rnd64 fl q \<and> rnd64 fl q \<le> 1"
  proof -
    from that assms(3) have "flog2 fl (rnd64 fl q) \<le> 0" by blast
    with that have "shift_of fl (Fin (rnd64 fl q)) = Inr 0"
      by (intro shift_of_le_one) simp_all
    then show ?thesis by (simp only: shift_of_Fin sum.inject)
  qed
  with run nonneg
  show "\<exists>sh. solve_shift fl S_acc S_target = Inr sh \<and> 0 \<le> sh \<and>
           sh = (if 0 < rnd64 fl q
                 then max 0 (round_half_even (flog2 fl (rnd64 fl q))) else 0) \<and>
           (0 < rnd64 fl q \<and> rnd64 fl q \<le> 1 \<longrightarrow> sh = 0)"
    by blast
qed

lemma exact_log2_nonpos: "\<forall>x. 0 < x \<and> x \<le> 1 \<longrightarrow> flog2 exact_ops x \<le> 0"
  by (simp add: exact_ops_simps)

lemma small_below_overflow64: "x \<le> 2 ^ 969 \<Longrightarrow> x < overflow64"
proof -
  assume x: "x \<le> 2 ^ 969"
  have "(2 :: real) ^ 969 + 2 ^ 970 < 2 ^ 1024"
  proof -
    have "(2 :: real) ^ 969 < 2 ^ 970" by (rule power_strict_increasing) simp_all
    then have "(2 :: real) ^ 969 + 2 ^ 970 < 2 * 2 ^ 970" by simp
    also have "\<dots> = 2 ^ 971" by simp
    also have "\<dots> < 2 ^ 1024" by (rule power_strict_increasing) simp_all
    finally show ?thesis .
  qed
  with x show ?thesis by (simp add: overflow64_def)
qed

lemma example_log2_8: "round_half_even (log 2 8) = 3"
proof -
  have "log 2 (2 ^ 3) = real 3" by (rule log_pow_cancel) simp_all
  then have "log 2 8 = of_int 3" by simp
  then show ?thesis by (simp only: round_half_even_of_int)
qed

text \<open>
  Two runs on doubles that are powers of two: \<open>M = 8\<close> gives the shift 3, and
  \<open>M = 1 / 4\<close> gives the shift 0 and leaves the scale as it is.
\<close>

theorem solve_shift_spec_witness:
  "(0 :: real) < 8 \<and> (8 :: real) < overflow64 \<and> solve_shift exact_ops 8 1 = Inr 3 \<and>
   (0 :: real) < 1 / 8 \<and> solve_shift exact_ops (1 / 8) (1 / 2) = Inr 0 \<and>
   effective_scale exact_ops (1 / 8) 0 = Inr (1 / 8)"
proof -
  have b8: "(8 :: real) < overflow64" by (rule small_below_overflow64) simp
  have b4: "(1 / 4 :: real) < overflow64" by (rule small_below_overflow64) simp
  from solve_shift_spec [of 8 8 1 exact_ops] exact_log2_nonpos b8
  have "\<exists>sh. solve_shift exact_ops 8 1 = Inr sh \<and> 0 \<le> sh \<and>
      sh = (if 0 < rnd64 exact_ops 8
            then max 0 (round_half_even (flog2 exact_ops (rnd64 exact_ops 8))) else 0) \<and>
      (0 < rnd64 exact_ops 8 \<and> rnd64 exact_ops 8 \<le> 1 \<longrightarrow> sh = 0)"
    by simp
  then have a: "solve_shift exact_ops 8 1 = Inr 3"
    by (auto simp add: exact_ops_simps example_log2_8)
  from solve_shift_spec [of "1 / 8" "1 / 4" "1 / 2" exact_ops] exact_log2_nonpos b4
  have "\<exists>sh. solve_shift exact_ops (1 / 8) (1 / 2) = Inr sh \<and> 0 \<le> sh \<and>
      sh = (if 0 < rnd64 exact_ops (1 / 4)
            then max 0 (round_half_even (flog2 exact_ops (rnd64 exact_ops (1 / 4)))) else 0) \<and>
      (0 < rnd64 exact_ops (1 / 4) \<and> rnd64 exact_ops (1 / 4) \<le> 1 \<longrightarrow> sh = 0)"
    by simp
  then have b: "solve_shift exact_ops (1 / 8) (1 / 2) = Inr 0"
    by (auto simp add: exact_ops_simps)
  have c: "effective_scale exact_ops (1 / 8) 0 = Inr (1 / 8)"
    by (simp add: effective_scale_def exact_ops_simps)
  from a b c b8 show ?thesis by simp
qed

text \<open>
  The claim as stated, for every positive \<open>S_acc\<close> and every \<open>S_target\<close>, fails where
  the quotient overflows: \<open>2 ^ 700\<close> divided by \<open>2 ^ - 700\<close> is infinite as a double,
  and no shift is returned.
\<close>

theorem solve_shift_overflow_counterexample:
  "(0 :: real) < 2 ^ 700 \<and>
   multiplier exact_ops (2 ^ 700) (1 / 2 ^ 700) = PInf \<and>
   solve_shift exact_ops (2 ^ 700) (1 / 2 ^ 700) = Inl OverflowError"
proof -
  have "overflow64 \<le> (2 :: real) ^ 1400"
  proof -
    have "(2 :: real) ^ 1024 \<le> 2 ^ 1400" by (rule power_increasing) simp_all
    then show ?thesis by (simp add: overflow64_def)
  qed
  moreover have "(2 :: real) ^ 700 / (if 0 < 1 / (2 :: real) ^ 700 then 1 / 2 ^ 700 else 1)
      = 2 ^ 1400"
    by (simp add: power_add [symmetric])
  ultimately have m: "multiplier exact_ops (2 ^ 700) (1 / 2 ^ 700) = PInf"
    by (intro multiplier_overflow) (simp only:)
  then have "solve_shift exact_ops (2 ^ 700) (1 / 2 ^ 700) = Inl OverflowError"
    by (simp add: solve_shift_def shift_of_def)
  with m show ?thesis by simp
qed

text \<open>The definitions that evaluate the quantizer on a concrete layer.\<close>

lemmas quant_eval = quantize_linear_def Let_def clamp_int8_def torch_round_def
  round_half_even_def trunc_def float_to_int32_def exact_ops_simps

lemma quantize_linear_parts:
  assumes q: "quantize_linear fl lin in_scale w_scale = (Wq, bq)"
  shows "length Wq = length (weight lin)"
    and "\<forall>i<length (weight lin). length (Wq ! i) = length (weight lin ! i) \<and>
           (\<forall>j<length (weight lin ! i).
              sint (Wq ! i ! j) =
                min (max (round_half_even (div32 fl (weight lin ! i ! j) w_scale)) (- 128)) 127)"
    and "length bq = length (bias lin)"
    and "\<forall>i<length (bias lin).
           - 2147483648 \<le> round_half_even (div32 fl (bias lin ! i) (mul64 fl in_scale w_scale)) \<and>
           round_half_even (div32 fl (bias lin ! i) (mul64 fl in_scale w_scale)) \<le> 2147483647 \<longrightarrow>
           sint (bq ! i) = round_half_even (div32 fl (bias lin ! i) (mul64 fl in_scale w_scale))"
proof -
  from q have W: "Wq = map (map (\<lambda>w. quantize_value fl w w_scale)) (weight lin)"
    and b: "bq = map (\<lambda>b. float_to_int32 (ovf32 fl)
        (torch_round (div32 fl b (mul64 fl in_scale w_scale)))) (bias lin)"
    by (simp_all add: quantize_linear_def Let_def quantize_value_def)
  show "length Wq = length (weight lin)" by (simp add: W)
  show "length bq = length (bias lin)" by (simp add: b)
  show "\<forall>i<length (weight lin). length (Wq ! i) = length (weight lin ! i) \<and>
           (\<forall>j<length (weight lin ! i).
              sint (Wq ! i ! j) =
                min (max (round_half_even (div32 fl (weight lin ! i ! j) w_scale)) (- 128)) 127)"
    by (simp add: W sint_quantize_value)
  show "\<forall>i<length (bias lin).
           - 2147483648 \<le> round_half_even (div32 fl (bias lin ! i) (mul64 fl in_scale w_scale)) \<and>
           round_half_even (div32 fl (bias lin ! i) (mul64 fl in_scale w_scale)) \<le> 2147483647 \<longrightarrow>
           sint (bq ! i) = round_half_even (div32 fl (bias lin ! i) (mul64 fl in_scale w_scale))"
    by (simp add: b torch_round_def sint_float_to_int32_of_int)
qed

text \<open>
  C2, amended. For a weight matrix \<open>W\<close>, a bias \<open>b\<close> and scales \<open>input_scale > 0\<close> and
  \<open>weight_scale > 0\<close>, \<open>quantize_linear\<close> returns \<open>Wq\<close> of the shape of \<open>W\<close> with
  \<open>Wq[i,j] = clamp(round(W[i,j] / weight_scale), -128, 127)\<close>, and \<open>bq\<close> of the length
  of \<open>b\<close> with \<open>bq[i] = round(b[i] / (input_scale * weight_scale))\<close>, not clamped,
  whenever that integer lies in the int32 range. The quotients and the product are the
  float ones. \<open>round\<close> is the nearest integer, a tie going to the even neighbour: 0.5
  to 0, 1.5 to 2, 2.5 to 2.
\<close>

theorem quantize_linear_spec:
  assumes "0 < in_scale" and "0 < w_scale"
    and "quantize_linear fl lin in_scale w_scale = (Wq, bq)"
  shows "length Wq = length (weight lin) \<and>
     (\<forall>i<length (weight lin). length (Wq ! i) = length (weight lin ! i) \<and>
        (\<forall>j<length (weight lin ! i).
           sint (Wq ! i ! j) =
             min (max (round_half_even (div32 fl (weight lin ! i ! j) w_scale)) (- 128)) 127)) \<and>
     length bq = length (bias lin) \<and>
     (\<forall>i<length (bias lin).
        - 2147483648 \<le> round_half_even (div32 fl (bias lin ! i) (mul64 fl in_scale w_scale)) \<and>
        round_half_even (div32 fl (bias lin ! i) (mul64 fl in_scale w_scale)) \<le> 2147483647 \<longrightarrow>
        sint (bq ! i) = round_half_even (div32 fl (bias lin ! i) (mul64 fl in_scale w_scale))) \<and>
     (\<forall>x. \<bar>of_int (round_half_even x) - x\<bar> \<le> 1 / 2 \<and>
        (\<bar>of_int (round_half_even x) - x\<bar> = 1 / 2 \<longrightarrow> even (round_half_even x))) \<and>
     round_half_even (1 / 2) = 0 \<and> round_half_even (3 / 2) = 2 \<and>
     round_half_even (5 / 2) = 2"
  using quantize_linear_parts [OF assms(3)] round_half_even_near round_half_even_tie
    round_half_even_examples(1,2,3)
  by blast

text \<open>
  A layer whose quotients by the scale 0.25 are exact in float32: the ties 0.5, 1.5 and
  2.5 go to 0, 2 and 2, the weights 100 and -100 saturate, and the bias 250 is stored as
  1000, unclamped.
\<close>

theorem quantize_linear_spec_witness:
  "(0 :: real) < 1 \<and> (0 :: real) < 1 / 4 \<and>
   quantize_linear exact_ops
     \<lparr>weight = [[1 / 8, 3 / 8, 5 / 8, 1 / 4, 100, - 100]], bias = [250, - 3 / 8]\<rparr> 1 (1 / 4)
     = ([[0, 2, 2, 1, 127, - 128]], [1000, - 2]) \<and>
   length [[0, 2, 2, 1, 127, - 128 :: int8]]
     = length [[1 / 8, 3 / 8, 5 / 8, 1 / 4, 100, - 100 :: real]]"
proof -
  have p: "(0 :: real) < 1" "(0 :: real) < 1 / 4" by simp_all
  have e: "quantize_linear exact_ops
      \<lparr>weight = [[1 / 8, 3 / 8, 5 / 8, 1 / 4, 100, - 100]], bias = [250, - 3 / 8]\<rparr> 1 (1 / 4)
      = ([[0, 2, 2, 1, 127, - 128]], [1000, - 2])"
    by (simp add: quant_eval)
  from quantize_linear_spec [OF p e]
  have "length [[0, 2, 2, 1, 127, - 128 :: int8]] =
      length (weight \<lparr>weight = [[1 / 8, 3 / 8, 5 / 8, 1 / 4, 100, - 100]],
        bias = [250, - 3 / 8]\<rparr>)"
    by (rule conjunct1)
  with p e show ?thesis by simp
qed

text \<open>
  The claim as stated, for every bias, fails where the rounded value does not fit
  32 bits: the bias \<open>2 ^ 31\<close> at scales 1 rounds to \<open>2 ^ 31\<close>, which no int32 holds.
\<close>

theorem quantize_linear_bias_counterexample:
  "(0 :: real) < 1 \<and>
   round_half_even (div32 exact_ops 2147483648 (mul64 exact_ops 1 1)) = 2147483648 \<and>
   sint (snd (quantize_linear exact_ops \<lparr>weight = [[1]], bias = [2147483648]\<rparr> 1 1) ! 0)
     \<noteq> 2147483648"
proof -
  have r: "round_half_even 2147483648 = 2147483648"
    using round_half_even_of_int [of 2147483648] by simp
  have t: "trunc 2147483648 = 2147483648"
    using trunc_of_int [of 2147483648] by simp
  have "snd (quantize_linear exact_ops \<lparr>weight = [[1]], bias = [2147483648]\<rparr> 1 1)
      = [- 2147483648]"
    by (simp add: quantize_linear_def Let_def torch_round_def float_to_int32_def
        exact_ops_simps r t)
  then show ?thesis by (simp add: exact_ops_simps r)
qed

section \<open>Properties of the script\<close>

lemma build_pipeline_Inr:
  assumes "build_pipeline fl fc1 fc2 x_flat h1_f = Inr q"
  shows "\<exists>sx sw1 sw2 target sh eff.
     calc_scale_sym_fl fl x_flat 127 = Inr sx \<and>
     calc_scale_sym_fl fl (concat (weight fc1)) 127 = Inr sw1 \<and>
     calc_scale_sym_fl fl (concat (weight fc2)) 127 = Inr sw2 \<and>
     calc_scale_sym_fl fl h1_f 127 = Inr target \<and>
     shift_of fl (multiplier fl (mul64 fl sx sw1) target) = Inr sh \<and>
     effective_scale fl (mul64 fl sx sw1) sh = Inr eff \<and>
     q = \<lparr>scale_x = sx, scale_w1 = sw1, scale_w2 = sw2, scale_h1_target = target,
          acc1_scale = mul64 fl sx sw1, M1 = multiplier fl (mul64 fl sx sw1) target,
          scale_h1_eff = eff, in2_scale = eff, acc2_scale = mul64 fl eff sw2,
          shift2 = 0,
          pipe = \<lparr>W1_q = fst (quantize_linear fl fc1 sx sw1),
                   b1_q = snd (quantize_linear fl fc1 sx sw1),
                   shift1 = nat sh,
                   W2_q = fst (quantize_linear fl fc2 eff sw2),
                   b2_q = snd (quantize_linear fl fc2 eff sw2)\<rparr>\<rparr>"
  using assms unfolding build_pipeline_def Let_def
  by (auto split: sum.splits prod.splits)

lemma effective_scale_Inr:
  "effective_scale fl acc sh = Inr eff \<Longrightarrow> sh < 1024 \<and> eff = rnd64 fl (acc / 2 ^ nat sh)"
  by (auto simp add: effective_scale_def split: if_splits)

lemma build_pipeline_returns:
  assumes "calc_scale_sym_fl fl x_flat 127 = Inr sx"
    and "calc_scale_sym_fl fl (concat (weight fc1)) 127 = Inr sw1"
    and "calc_scale_sym_fl fl (concat (weight fc2)) 127 = Inr sw2"
    and "calc_scale_sym_fl fl h1_f 127 = Inr target"
    and "solve_shift fl (mul64 fl sx sw1) target = Inr sh" and "sh < 1024"
  shows "\<exists>q. build_pipeline fl fc1 fc2 x_flat h1_f = Inr q"
proof -
  from assms(5) have "shift_of fl (multiplier fl (mul64 fl sx sw1) target) = Inr sh"
    by (simp add: solve_shift_def)
  moreover from assms(6) have "effective_scale fl (mul64 fl sx sw1) sh
      = Inr (rnd64 fl (mul64 fl sx sw1 / 2 ^ nat sh))"
    by (simp add: effective_scale_def)
  ultimately show ?thesis
    unfolding build_pipeline_def Let_def
    by (simp add: assms(1-4) split: prod.splits)
qed

lemma calc_scale_sym_fl_returns: "t \<noteq> [] \<Longrightarrow> \<exists>s. calc_scale_sym_fl fl t k = Inr s"
  by (simp add: calc_scale_sym_fl_def Let_def)

text \<open>
  C5. In what the script returns, each scale is the estimator's on its tensor, and layer
  1 is quantized with \<open>scale_x\<close> and \<open>scale_w1\<close>; \<open>shift1\<close> is the shift solved from
  \<open>acc1_scale = scale_x * scale_w1\<close> and the target scale; the input scale of layer 2
  is the realized scale \<open>acc1_scale / 2 ^ shift1\<close> (as a double); \<open>W2_q\<close> and \<open>b2_q\<close>
  are quantized with that input scale, so
  \<open>b2_q[i] = round(b2[i] / (in2_scale * scale_w2))\<close>, and the accumulator scale of
  layer 2 is that input scale times \<open>scale_w2\<close>. The target scale enters only through
  \<open>shift1\<close>. The script returns whenever the four tensors are non-empty and a shift
  below 1024 is solved.
\<close>

theorem layer2_uses_effective_scale:
  "(\<forall>q. build_pipeline fl fc1 fc2 x_flat h1_f = Inr q \<longrightarrow>
      calc_scale_sym_fl fl x_flat 127 = Inr (scale_x q) \<and>
      calc_scale_sym_fl fl (concat (weight fc1)) 127 = Inr (scale_w1 q) \<and>
      calc_scale_sym_fl fl (concat (weight fc2)) 127 = Inr (scale_w2 q) \<and>
      calc_scale_sym_fl fl h1_f 127 = Inr (scale_h1_target q) \<and>
      (W1_q (pipe q), b1_q (pipe q)) = quantize_linear fl fc1 (scale_x q) (scale_w1 q) \<and>
      acc1_scale q = mul64 fl (scale_x q) (scale_w1 q) \<and>
      M1 q = multiplier fl (acc1_scale q) (scale_h1_target q) \<and>
      solve_shift fl (acc1_scale q) (scale_h1_target q) = Inr (int (shift1 (pipe q))) \<and>
      shift1 (pipe q) < 1024 \<and>
      scale_h1_eff q = rnd64 fl (acc1_scale q / 2 ^ shift1 (pipe q)) \<and>
      in2_scale q = rnd64 fl (acc1_scale q / 2 ^ shift1 (pipe q)) \<and>
      acc2_scale q = mul64 fl (in2_scale q) (scale_w2 q) \<and>
      shift2 q = 0 \<and>
      (W2_q (pipe q), b2_q (pipe q)) = quantize_linear fl fc2 (in2_scale q) (scale_w2 q) \<and>
      b2_q (pipe q) =
        map (\<lambda>b. float_to_int32 (ovf32 fl) (torch_round
               (div32 fl b (mul64 fl (in2_scale q) (scale_w2 q))))) (bias fc2)) \<and>
   (\<forall>sx sw1 target sh.
      x_flat \<noteq> [] \<and> concat (weight fc1) \<noteq> [] \<and> concat (weight fc2) \<noteq> [] \<and> h1_f \<noteq> [] \<and>
      calc_scale_sym_fl fl x_flat 127 = Inr sx \<and>
      calc_scale_sym_fl fl (concat (weight fc1)) 127 = Inr sw1 \<and>
      calc_scale_sym_fl fl h1_f 127 = Inr target \<and>
      solve_shift fl (mul64 fl sx sw1) target = Inr sh \<and> sh < 1024
      \<longrightarrow> (\<exists>q. build_pipeline fl fc1 fc2 x_flat h1_f = Inr q))"
proof (intro conjI impI allI)
  fix sx sw1 target sh
  assume a: "x_flat \<noteq> [] \<and> concat (weight fc1) \<noteq> [] \<and> concat (weight fc2) \<noteq> [] \<and> h1_f \<noteq> [] \<and>
      calc_scale_sym_fl fl x_flat 127 = Inr sx \<and>
      calc_scale_sym_fl fl (concat (weight fc1)) 127 = Inr sw1 \<and>
      calc_scale_sym_fl fl h1_f 127 = Inr target \<and>
      solve_shift fl (mul64 fl sx sw1) target = Inr sh \<and> sh < 1024"
  then obtain sw2 where "calc_scale_sym_fl fl (concat (weight fc2)) 127 = Inr sw2"
    using calc_scale_sym_fl_returns by blast
  with a show "\<exists>q. build_pipeline fl fc1 fc2 x_flat h1_f = Inr q"
    by (intro build_pipeline_returns [of fl x_flat sx fc1 sw1 fc2 sw2 h1_f target sh]) simp_all
next
  fix q
  assume b: "build_pipeline fl fc1 fc2 x_flat h1_f = Inr q"
  from build_pipeline_Inr [OF b] obtain sx sw1 sw2 target sh eff where
    sx: "calc_scale_sym_fl fl x_flat 127 = Inr sx"
    and sw1: "calc_scale_sym_fl fl (concat (weight fc1)) 127 = Inr sw1"
    and sw2: "calc_scale_sym_fl fl (concat (weight fc2)) 127 = Inr sw2"
    and tg: "calc_scale_sym_fl fl h1_f 127 = Inr target"
    and sh: "shift_of fl (multiplier fl (mul64 fl sx sw1) target) = Inr sh"
    and ef: "effective_scale fl (mul64 fl sx sw1) sh = Inr eff"
    and q: "q = \<lparr>scale_x = sx, scale_w1 = sw1, scale_w2 = sw2, scale_h1_target = target,
          acc1_scale = mul64 fl sx sw1, M1 = multiplier fl (mul64 fl sx sw1) target,
          scale_h1_eff = eff, in2_scale = eff, acc2_scale = mul64 fl eff sw2,
          shift2 = 0,
          pipe = \<lparr>W1_q = fst (quantize_linear fl fc1 sx sw1),
                   b1_q = snd (quantize_linear fl fc1 sx sw1),
                   shift1 = nat sh,
                   W2_q = fst (quantize_linear fl fc2 eff sw2),
                   b2_q = snd (quantize_linear fl fc2 eff sw2)\<rparr>\<rparr>"
    by blast
  from shift_of_nonneg [OF sh] have nn: "0 \<le> sh" .
  from effective_scale_Inr [OF ef] have lt: "sh < 1024"
    and eff: "eff = rnd64 fl (mul64 fl sx sw1 / 2 ^ nat sh)" by simp_all
  show "calc_scale_sym_fl fl x_flat 127 = Inr (scale_x q)" by (simp add: q sx)
  show "calc_scale_sym_fl fl (concat (weight fc1)) 127 = Inr (scale_w1 q)" by (simp add: q sw1)
  show "calc_scale_sym_fl fl (concat (weight fc2)) 127 = Inr (scale_w2 q)" by (simp add: q sw2)
  show "calc_scale_sym_fl fl h1_f 127 = Inr (scale_h1_target q)" by (simp add: q tg)
  show "(W1_q (pipe q), b1_q (pipe q)) = quantize_linear fl fc1 (scale_x q) (scale_w1 q)"
    by (simp add: q)
  show "acc1_scale q = mul64 fl (scale_x q) (scale_w1 q)" by (simp add: q)
  show "M1 q = multiplier fl (acc1_scale q) (scale_h1_target q)" by (simp add: q)
  show "solve_shift fl (acc1_scale q) (scale_h1_target q) = Inr (int (shift1 (pipe q)))"
    using nn by (simp add: q solve_shift_def sh)
  show "shift1 (pipe q) < 1024" using lt nn by (simp add: q)
  show "scale_h1_eff q = rnd64 fl (acc1_scale q / 2 ^ shift1 (pipe q))" by (simp add: q eff)
  show "in2_scale q = rnd64 fl (acc1_scale q / 2 ^ shift1 (pipe q))" by (simp add: q eff)
  show "acc2_scale q = mul64 fl (in2_scale q) (scale_w2 q)" by (simp add: q)
  show "shift2 q = 0" by (simp add: q)
  show "(W2_q (pipe q), b2_q (pipe q)) = quantize_linear fl fc2 (in2_scale q) (scale_w2 q)"
    by (simp add: q)
  show "b2_q (pipe q) =
        map (\<lambda>b. float_to_int32 (ovf32 fl) (torch_round
               (div32 fl b (mul64 fl (in2_scale q) (scale_w2 q))))) (bias fc2)"
    by (simp add: q quantize_linear_def Let_def)
qed

lemma example_scale:
  "calc_scale_sym_fl exact_ops [127] 127 = Inr 1" "calc_scale_sym_fl exact_ops [254] 127 = Inr 2"
  by (simp_all add: calc_scale_sym_fl_def exact_ops_simps)

lemma example_layer1:
  "quantize_linear exact_ops \<lparr>weight = [[127]], bias = [- 15875]\<rparr> 1 1
     = ([[127]], [- 15875])"
  by (simp add: quant_eval)

lemma example_layer2:
  "quantize_linear exact_ops \<lparr>weight = [[127]], bias = [3]\<rparr> 1 1 = ([[127]], [3])"
  by (simp add: quant_eval)

lemma example_shift: "shift_of exact_ops (Fin (1 / 2)) = Inr 0"
  by (rule shift_of_le_one) (simp_all add: exact_ops_simps)

lemma example_multiplier: "multiplier exact_ops 1 2 = Fin (1 / 2)"
proof -
  have "(1 / 2 :: real) < overflow64" by (rule small_below_overflow64) simp
  then show ?thesis
    using multiplier_finite [of 1 2 exact_ops] by (simp add: exact_ops_simps)
qed

lemma example_effective: "effective_scale exact_ops 1 0 = Inr 1"
  by (simp add: effective_scale_def exact_ops_simps)

lemma example_build:
  "build_pipeline exact_ops \<lparr>weight = [[127]], bias = [- 15875]\<rparr> \<lparr>weight = [[127]], bias = [3]\<rparr>
          [127] [254] =
   Inr \<lparr>scale_x = 1, scale_w1 = 1, scale_w2 = 1, scale_h1_target = 2,
        acc1_scale = 1, M1 = Fin (1 / 2), scale_h1_eff = 1, in2_scale = 1,
        acc2_scale = 1, shift2 = 0,
        pipe = \<lparr>W1_q = [[127]], b1_q = [- 15875], shift1 = 0,
                 W2_q = [[127]], b2_q = [3]\<rparr>\<rparr>"
  by (simp add: build_pipeline_def example_scale example_shift example_multiplier
      example_effective example_layer1 example_layer2 exact_ops_simps)

text \<open>
  An instance where the realized scale differs from the target. The calibration batch
  is the one input 127 and the hidden activation is \<open>relu (127 * 127 - 15875) = 254\<close>,
  so all three scales are 1 and the target is 2; the multiplier is one half, the shift
  is 0 and the realized scale is 1; the bias of layer 2 is 3 where the target scale
  would have given 2.
\<close>

theorem layer2_uses_effective_scale_witness:
  "\<exists>q. build_pipeline exact_ops \<lparr>weight = [[127]], bias = [- 15875]\<rparr> \<lparr>weight = [[127]], bias = [3]\<rparr>
          [127] [254] = Inr q \<and>
     scale_h1_target q = 2 \<and> shift1 (pipe q) = 0 \<and>
     in2_scale q = 1 \<and> b2_q (pipe q) = [3] \<and>
     float_to_int32 (ovf32 exact_ops) (torch_round
       (div32 exact_ops 3 (mul64 exact_ops (scale_h1_target q) (scale_w2 q)))) = 2"
  using layer2_uses_effective_scale [of exact_ops "\<lparr>weight = [[127]], bias = [- 15875]\<rparr>"
        "\<lparr>weight = [[127]], bias = [3]\<rparr>" "[127]" "[254]"]
  by (simp add: example_build float_to_int32_def torch_round_def round_half_even_def trunc_def
      exact_ops_simps)

section \<open>Properties of the memory files\<close>

lemma hex_val_hex_digit: "d < 16 \<Longrightarrow> hex_val (hex_digit d) = d"
proof -
  assume "d < 16"
  then have "d \<in> {0, 1, 2, 3, 4, 5, 6, 7, 8, 9, 10, 11, 12, 13, 14, 15}" by simp arith
  then show ?thesis
    by (elim insertE emptyE) (simp_all add: hex_val_def hex_digit_def)
qed

lemma hex_digit_in: "d < 16 \<Longrightarrow> hex_digit d \<in> set ''0123456789abcdef''"
  unfolding hex_digit_def by (rule nth_mem) simp

lemma hex_value_snoc: "hex_value (s @ [c]) = 16 * hex_value s + hex_val c"
  by (simp add: hex_value_def)

lemma hex_value_to_hex: "hex_value (to_hex n) = n"
proof (induction n rule: to_hex.induct)
  case (1 n)
  show ?case
  proof (cases "n < 16")
    case True
    then have "to_hex n = [hex_digit n]" by (simp add: to_hex.simps)
    with True show ?thesis by (simp add: hex_value_def hex_val_hex_digit)
  next
    case False
    then have "to_hex n = to_hex (n div 16) @ [hex_digit (n mod 16)]"
      by (subst to_hex.simps) simp
    with 1 False show ?thesis
      by (simp add: hex_value_snoc hex_val_hex_digit)
  qed
qed

lemma set_to_hex: "set (to_hex n) \<subseteq> set ''0123456789abcdef''"
proof (induction n rule: to_hex.induct)
  case (1 n)
  show ?case
  proof (cases "n < 16")
    case True
    then have "to_hex n = [hex_digit n]" by (simp add: to_hex.simps)
    with True hex_digit_in [of n] show ?thesis by simp
  next
    case False
    then have "to_hex n = to_hex (n div 16) @ [hex_digit (n mod 16)]"
      by (subst to_hex.simps) simp
    moreover have "hex_digit (n mod 16) \<in> set ''0123456789abcdef''"
      by (rule hex_digit_in) simp
    ultimately show ?thesis using 1 False by simp
  qed
qed

lemma length_to_hex: "n < 16 ^ k \<Longrightarrow> 0 < k \<Longrightarrow> length (to_hex n) \<le> k"
proof (induction n arbitrary: k rule: to_hex.induct)
  case (1 n)
  show ?case
  proof (cases "n < 16")
    case True
    then have "to_hex n = [hex_digit n]" by (simp add: to_hex.simps)
    with "1.prems" show ?thesis by simp
  next
    case False
    then have eq: "to_hex n = to_hex (n div 16) @ [hex_digit (n mod 16)]"
      by (subst to_hex.simps) simp
    from False "1.prems" obtain k' where k: "k = Suc k'" by (cases k) auto
    with False "1.prems" have "0 < k'" by (cases k') auto
    moreover from "1.prems" k have "n div 16 < 16 ^ k'"
      by (simp add: less_mult_imp_div_less mult.commute)
    ultimately have "length (to_hex (n div 16)) \<le> k'"
      using "1.IH" [OF False] by blast
    with eq k show ?thesis by simp
  qed
qed

lemma hex_val_zero: "hex_val (CHR ''0'') = 0"
  by (simp add: hex_val_def)

lemma hex_value_zeros: "hex_value (replicate k (CHR ''0'') @ s) = hex_value s"
  by (induction k) (simp_all add: hex_value_def hex_val_zero)

lemma hex_value_format_x: "hex_value (format_x w n) = n"
  by (simp add: format_x_def hex_value_zeros hex_value_to_hex)

lemma length_format_x: "n < 16 ^ w \<Longrightarrow> 0 < w \<Longrightarrow> length (format_x w n) = w"
  using length_to_hex [of n w] by (simp add: format_x_def)

lemma set_format_x: "set (format_x w n) \<subseteq> set ''0123456789abcdef''"
proof -
  have "set (replicate (w - length (to_hex n)) (CHR ''0'')) \<subseteq> set ''0123456789abcdef''"
    by (auto simp add: set_replicate_conv_if)
  with set_to_hex [of n] show ?thesis by (simp add: format_x_def)
qed

lemma sint_and_mask_int8: "nat (sint (v :: int8) AND 0xFF) = unat v"
proof -
  have "sint v AND 0xFF = sint v AND mask 8" by (simp add: mask_eq_exp_minus_1)
  also have "\<dots> = take_bit 8 (sint v)" by (simp only: take_bit_eq_mask)
  also have "\<dots> = uint v" by (simp add: uint_sint)
  finally show ?thesis by simp
qed

lemma sint_and_mask_int32: "nat (sint (v :: int32) AND 0xFFFFFFFF) = unat v"
proof -
  have "sint v AND 0xFFFFFFFF = sint v AND mask 32" by (simp add: mask_eq_exp_minus_1)
  also have "\<dots> = take_bit 32 (sint v)" by (simp only: take_bit_eq_mask)
  also have "\<dots> = uint v" by (simp add: uint_sint)
  finally show ?thesis by simp
qed

lemma byte_token_props:
  "length (byte_token v) = 2" "set (byte_token v) \<subseteq> set ''0123456789abcdef''"
  "hex_value (byte_token v) = unat v"
proof -
  have "unat v < 2 ^ 8" using unsigned_less [of v] by simp
  then have "unat v < 16 ^ 2" by simp
  then show "length (byte_token v) = 2"
    by (simp only: byte_token_def sint_and_mask_int8 length_format_x)
  show "set (byte_token v) \<subseteq> set ''0123456789abcdef''"
    unfolding byte_token_def by (rule set_format_x)
  show "hex_value (byte_token v) = unat v"
    by (simp only: byte_token_def sint_and_mask_int8 hex_value_format_x)
qed

lemma word_token_props:
  "length (word_token v) = 8" "set (word_token v) \<subseteq> set ''0123456789abcdef''"
  "hex_value (word_token v) = unat v"
proof -
  have "unat v < 2 ^ 32" using unsigned_less [of v] by simp
  then have "unat v < 16 ^ 8" by simp
  then show "length (word_token v) = 8"
    by (simp only: word_token_def sint_and_mask_int32 length_format_x)
  show "set (word_token v) \<subseteq> set ''0123456789abcdef''"
    unfolding word_token_def by (rule set_format_x)
  show "hex_value (word_token v) = unat v"
    by (simp only: word_token_def sint_and_mask_int32 hex_value_format_x)
qed

lemma split_no_sep: "c \<notin> set s \<Longrightarrow> split c s = [s]"
  by (induction s) auto

lemma split_append_sep: "c \<notin> set s \<Longrightarrow> split c (s @ c # rest) = s # split c rest"
  by (induction s) auto

lemma split_join:
  "toks \<noteq> [] \<Longrightarrow> \<forall>t\<in>set toks. c \<notin> set t \<Longrightarrow> split c (join [c] toks) = toks"
proof (induction "[c]" toks rule: join.induct)
  case 1
  then show ?case by simp
next
  case (2 x)
  then show ?case by (simp add: split_no_sep)
next
  case (3 x y ys)
  then show ?case by (simp add: split_append_sep)
qed

lemma split_lines:
  "\<forall>l\<in>set ls. c \<notin> set l \<Longrightarrow> split c (concat (map (\<lambda>l. l @ [c]) ls)) = ls @ [[]]"
  by (induction ls) (simp_all add: split_append_sep)

lemma set_join: "set (join sep toks) \<subseteq> set sep \<union> \<Union> (set ` set toks)"
  by (induction sep toks rule: join.induct) auto


lemma newline_not_hex: "newline \<notin> set ''0123456789abcdef''"
  by (simp add: newline_def)

lemma space_not_hex: "CHR '' '' \<notin> set ''0123456789abcdef''"
  by simp

lemma newline_not_in_row: "newline \<notin> set (join '' '' (map byte_token row))"
proof
  assume "newline \<in> set (join '' '' (map byte_token row))"
  with set_join [of "'' ''" "map byte_token row"]
  have "newline \<in> set '' '' \<union> \<Union> (set ` set (map byte_token row))" by blast
  then obtain v where "newline \<in> set (byte_token v)"
    by (auto simp add: newline_def)
  with byte_token_props(2) [of v] newline_not_hex show False by blast
qed

lemma to_hex_small: "n < 16 \<Longrightarrow> to_hex n = [hex_digit n]"
  by (simp add: to_hex.simps)

lemma to_hex_large: "\<not> n < 16 \<Longrightarrow> to_hex n = to_hex (n div 16) @ [hex_digit (n mod 16)]"
  by (subst to_hex.simps) simp

lemma replicate_numeral_unfold:
  "replicate (numeral k) x = x # replicate (pred_numeral k) x"
  by (simp add: numeral_eq_Suc)

lemma memory_file_parts:
  shows "split newline (save_mem_int8 arr2d) =
           map (\<lambda>row. join '' '' (map byte_token row)) arr2d @ [[]]"
    and "\<forall>row. row \<noteq> [] \<longrightarrow>
           split (CHR '' '') (join '' '' (map byte_token row)) = map byte_token row"
    and "\<forall>v. length (byte_token v) = 2 \<and> set (byte_token v) \<subseteq> set ''0123456789abcdef'' \<and>
           hex_value (byte_token v) = unat v"
    and "split newline (save_mem_int32 arr1d) = map word_token arr1d @ [[]]"
    and "\<forall>v. length (word_token v) = 8 \<and> set (word_token v) \<subseteq> set ''0123456789abcdef'' \<and>
           hex_value (word_token v) = unat v"
proof -
  have "save_mem_int8 arr2d =
      concat (map (\<lambda>l. l @ [newline]) (map (\<lambda>row. join '' '' (map byte_token row)) arr2d))"
    by (simp add: save_mem_int8_def comp_def)
  moreover have "\<forall>l\<in>set (map (\<lambda>row. join '' '' (map byte_token row)) arr2d). newline \<notin> set l"
    using newline_not_in_row by auto
  ultimately show "split newline (save_mem_int8 arr2d) =
           map (\<lambda>row. join '' '' (map byte_token row)) arr2d @ [[]]"
    by (simp only: split_lines)
  show "\<forall>row. row \<noteq> [] \<longrightarrow>
           split (CHR '' '') (join '' '' (map byte_token row)) = map byte_token row"
  proof (intro allI impI)
    fix row :: "int8 list"
    assume "row \<noteq> []"
    then have "map byte_token row \<noteq> []" by simp
    moreover have "\<forall>t\<in>set (map byte_token row). CHR '' '' \<notin> set t"
      using byte_token_props(2) space_not_hex by auto
    ultimately show "split (CHR '' '') (join '' '' (map byte_token row)) = map byte_token row"
      by (rule split_join)
  qed
  show "\<forall>v. length (byte_token v) = 2 \<and> set (byte_token v) \<subseteq> set ''0123456789abcdef'' \<and>
           hex_value (byte_token v) = unat v"
    using byte_token_props by blast
  have "save_mem_int32 arr1d = concat (map (\<lambda>l. l @ [newline]) (map word_token arr1d))"
    by (simp add: save_mem_int32_def comp_def)
  moreover have "\<forall>l\<in>set (map word_token arr1d). newline \<notin> set l"
    using word_token_props(2) newline_not_hex by auto
  ultimately show "split newline (save_mem_int32 arr1d) = map word_token arr1d @ [[]]"
    by (simp only: split_lines)
  show "\<forall>v. length (word_token v) = 8 \<and> set (word_token v) \<subseteq> set ''0123456789abcdef'' \<and>
           hex_value (word_token v) = unat v"
    using word_token_props by blast
qed

text \<open>
  C8. The weight file is one line per row of the matrix, each ended by a newline (so
  cutting the file at newlines gives the rows' lines and an empty rest); the line of a
  row is its tokens separated by single spaces; the token of an int8 value has two
  characters, lowercase hexadecimal digits, and denotes the unsigned value of its byte.
  The bias file is one token per line, of eight lowercase hexadecimal digits, denoting
  the unsigned value of the 32-bit word.
\<close>

theorem memory_file_format:
  "split newline (save_mem_int8 arr2d) =
     map (\<lambda>row. join '' '' (map byte_token row)) arr2d @ [[]] \<and>
   (\<forall>row. row \<noteq> [] \<longrightarrow>
      split (CHR '' '') (join '' '' (map byte_token row)) = map byte_token row) \<and>
   (\<forall>v. length (byte_token v) = 2 \<and> set (byte_token v) \<subseteq> set ''0123456789abcdef'' \<and>
      hex_value (byte_token v) = unat v) \<and>
   split newline (save_mem_int32 arr1d) = map word_token arr1d @ [[]] \<and>
   (\<forall>v. length (word_token v) = 8 \<and> set (word_token v) \<subseteq> set ''0123456789abcdef'' \<and>
      hex_value (word_token v) = unat v)"
  by (intro conjI) (rule memory_file_parts)+

theorem memory_file_format_witness:
  "save_mem_int8 [[- 1, 0, 127], [- 128, 16, 10]] =
      ''ff 00 7f'' @ [newline] @ ''80 10 0a'' @ [newline] \<and>
   split newline (save_mem_int8 [[- 1, 0, 127], [- 128, 16, 10]]) =
      [''ff 00 7f'', ''80 10 0a'', []] \<and>
   [- 1, 0, 127] \<noteq> ([] :: int8 list) \<and>
   split (CHR '' '') ''ff 00 7f'' = [''ff'', ''00'', ''7f''] \<and>
   save_mem_int32 [- 1, 1, 305419896] =
      ''ffffffff'' @ [newline] @ ''00000001'' @ [newline] @ ''12345678'' @ [newline]"
proof -
  have t8: "map byte_token [- 1, 0, 127] = [''ff'', ''00'', ''7f'']"
    "map byte_token [- 128, 16, 10] = [''80'', ''10'', ''0a'']"
    by (simp_all add: byte_token_def format_x_def to_hex_small to_hex_large hex_digit_def)
  have t32: "map word_token [- 1, 1, 305419896] = [''ffffffff'', ''00000001'', ''12345678'']"
    by (simp add: word_token_def format_x_def to_hex_small to_hex_large hex_digit_def
        replicate_numeral_unfold)
  have f8: "save_mem_int8 [[- 1, 0, 127], [- 128, 16, 10]] =
      ''ff 00 7f'' @ [newline] @ ''80 10 0a'' @ [newline]"
    using t8 by (simp add: save_mem_int8_def)
  have f32: "save_mem_int32 [- 1, 1, 305419896] =
      ''ffffffff'' @ [newline] @ ''00000001'' @ [newline] @ ''12345678'' @ [newline]"
    using t32 by (simp add: save_mem_int32_def)
  note fmt = memory_file_format [of "[[- 1, 0, 127], [- 128, 16, 10]]" "[- 1, 1, 305419896]"]
  from fmt have "split newline (save_mem_int8 [[- 1, 0, 127], [- 128, 16, 10]]) =
      map (\<lambda>row. join '' '' (map byte_token row)) [[- 1, 0, 127], [- 128, 16, 10]] @ [[]]"
    by (rule conjunct1)
  with t8 have l8: "split newline (save_mem_int8 [[- 1, 0, 127], [- 128, 16, 10]]) =
      [''ff 00 7f'', ''80 10 0a'', []]"
    by simp
  from fmt have "[- 1, 0, 127] \<noteq> ([] :: int8 list) \<longrightarrow>
      split (CHR '' '') (join '' '' (map byte_token [- 1, 0, 127])) = map byte_token [- 1, 0, 127]"
    by blast
  with t8 have w8: "split (CHR '' '') ''ff 00 7f'' = [''ff'', ''00'', ''7f'']"
    by simp
  from f8 l8 w8 f32 show ?thesis by simp
qed

end
